theory Spec2Isabelle
  imports Complex_Main
begin

section \<open>Data model\<close>

text \<open>
  The fields dragged into the visual channels (\<^verbatim>\<open>IViewField\<close> of the interfaces
  module).  Only the members that \<^verbatim>\<open>react-vega.tsx\<close> and \<^verbatim>\<open>renderer/index.tsx\<close>
  read are kept: the field id, the analytic type (\<^verbatim>\<open>'dimension'\<close> or
  \<^verbatim>\<open>'measure'\<close>) and the aggregator name.
\<close>

datatype IAnalyticType = Dimension | Measure

record IViewField =
  fid :: string
  analyticType :: IAnalyticType
  aggName :: "string option"

text \<open>
  \<^verbatim>\<open>Array.prototype.slice(start, end)\<close>: a negative index counts from the end of
  the array, both indices are clamped to the array, and a missing \<^verbatim>\<open>end\<close> is the
  length.
\<close>

definition slice :: "'a list \<Rightarrow> int \<Rightarrow> int option \<Rightarrow> 'a list" where
  "slice xs start fin =
     (let n = int (length xs);
          k = (if start < 0 then max (n + start) 0 else min start n);
          f = (case fin of
                 None \<Rightarrow> n
               | Some e \<Rightarrow> if e < 0 then max (n + e) 0 else min e n)
      in take (nat (f - k)) (drop (nat k) xs))"

section \<open>View Grid Planner\<close>

subsection \<open>The callbacks of the memo hooks\<close>

text \<open>
  \<^verbatim>\<open>rows.filter(f => f.analyticType === 'dimension')\<close> and its three siblings
  (lines 120 to 123).
\<close>

definition dims :: "IViewField list \<Rightarrow> IViewField list" where
  "dims fs = filter (\<lambda>f. analyticType f = Dimension) fs"

definition meas :: "IViewField list \<Rightarrow> IViewField list" where
  "meas fs = filter (\<lambda>f. analyticType f = Measure) fs"

text \<open>\<^verbatim>\<open>rowDims.slice(0, -1)\<close> (lines 124 and 125).\<close>

definition facetFields :: "IViewField list \<Rightarrow> IViewField list" where
  "facetFields ds = slice ds 0 (Some (- 1))"

text \<open>
  \<^verbatim>\<open>rowMeas.length === 0 ? rowDims.slice(-1) : rowMeas\<close> (lines 126 and 127).
\<close>

definition repeatFields :: "IViewField list \<Rightarrow> IViewField list \<Rightarrow> IViewField list" where
  "repeatFields ds ms = (if length ms = 0 then slice ds (- 1) None else ms)"

text \<open>
  \<^verbatim>\<open>Math.max(1, rowRepeatFields.length * colRepeatFields.length)\<close> (line 135),
  and the grid sizes handed to the container (line 451).
\<close>

definition viewNum :: "IViewField list \<Rightarrow> IViewField list \<Rightarrow> nat" where
  "viewNum rowRepeat colRepeat = max 1 (length rowRepeat * length colRepeat)"

definition gridSize :: "IViewField list \<Rightarrow> nat" where
  "gridSize repeat = max (length repeat) 1"

subsection \<open>The facet field bound into each view (lines 150 to 154)\<close>

text \<open>
  \<^verbatim>\<open>rows.slice(0, -1).filter(f => f.analyticType === 'dimension')\<close>, and its last
  element or \<^verbatim>\<open>NULL_FIELD\<close>.  \<^verbatim>\<open>NULL_FIELD\<close> is a constant of
  \<^verbatim>\<open>./spec/field\<close>; it is a parameter here.
\<close>

definition leftFacetFields :: "IViewField list \<Rightarrow> IViewField list" where
  "leftFacetFields fs = dims (slice fs 0 (Some (- 1)))"

definition facetField :: "IViewField \<Rightarrow> IViewField list \<Rightarrow> IViewField" where
  "facetField NULL_FIELD fs =
     (let l = leftFacetFields fs
      in if length l > 0 then l ! (length l - 1) else NULL_FIELD)"

subsection \<open>Memo hooks and the identity of arrays\<close>

text \<open>
  React's \<^verbatim>\<open>useMemo(callback, deps)\<close> runs the callback on the first render, and on
  a later render only when some dependency is not \<^verbatim>\<open>Object.is\<close>-equal to its value on
  the previous render; otherwise it returns the value it computed before.  Every
  dependency here is an array, and two arrays are \<^verbatim>\<open>Object.is\<close>-equal when they are
  the same object.  An array is therefore its identity together with its elements.
  Arrays passed in as props carry an \<open>Outer\<close> identity, arrays that the component
  allocates an \<open>Inner\<close> one.
\<close>

datatype ident = Outer nat | Inner nat

record 'a jsarray =
  ident :: ident
  items :: "'a list"

type_synonym 'a memo = "(ident list \<times> 'a jsarray) option"

text \<open>
  \<open>useMemo cell deps v\<close>: the hook whose cell is \<open>cell\<close>, with the dependency
  identities \<open>deps\<close>; \<open>v\<close> is the array the callback returns if it runs.  The
  result is the new cell and the array handed to the component.
\<close>

definition useMemo ::
  "'a memo \<Rightarrow> ident list \<Rightarrow> 'a jsarray \<Rightarrow> 'a memo \<times> 'a jsarray" where
  "useMemo cell deps v =
     (case cell of
        None \<Rightarrow> (Some (deps, v), v)
      | Some (prev, cached) \<Rightarrow>
          if prev = deps then (cell, cached) else (Some (deps, v), v))"

record hooks =
  allocated :: nat
  rowDims_cell :: "IViewField memo"
  colDims_cell :: "IViewField memo"
  rowMeas_cell :: "IViewField memo"
  colMeas_cell :: "IViewField memo"
  rowFacetFields_cell :: "IViewField memo"
  colFacetFields_cell :: "IViewField memo"
  rowRepeatFields_cell :: "IViewField memo"
  colRepeatFields_cell :: "IViewField memo"

definition mount :: hooks where
  "mount = \<lparr>allocated = 0,
     rowDims_cell = None, colDims_cell = None, rowMeas_cell = None, colMeas_cell = None,
     rowFacetFields_cell = None, colFacetFields_cell = None,
     rowRepeatFields_cell = None, colRepeatFields_cell = None\<rparr>"

record plan =
  rowDims :: "IViewField jsarray"
  colDims :: "IViewField jsarray"
  rowMeas :: "IViewField jsarray"
  colMeas :: "IViewField jsarray"
  rowFacetFields :: "IViewField jsarray"
  colFacetFields :: "IViewField jsarray"
  rowRepeatFields :: "IViewField jsarray"
  colRepeatFields :: "IViewField jsarray"

text \<open>
  The callback of lines 126 and 127 returns either a new array (\<^verbatim>\<open>slice\<close>) or the
  measures array itself.
\<close>

definition repeatArray ::
  "nat \<Rightarrow> IViewField jsarray \<Rightarrow> IViewField jsarray \<Rightarrow> IViewField jsarray" where
  "repeatArray n ds ms =
     (if length (items ms) = 0
      then \<lparr>ident = Inner n, items = slice (items ds) (- 1) None\<rparr>
      else ms)"

text \<open>
  One render of lines 120 to 127, with the dependency lists as the source writes
  them: both \<^verbatim>\<open>rowRepeatFields\<close> and \<^verbatim>\<open>colRepeatFields\<close> list
  \<^verbatim>\<open>[rowDims, rowMeas]\<close>.
\<close>

definition render :: "hooks \<Rightarrow> IViewField jsarray \<Rightarrow> IViewField jsarray \<Rightarrow> hooks \<times> plan" where
  "render h rows columns =
     (let n = allocated h;
          (c1, rd) = useMemo (rowDims_cell h) [ident rows]
             \<lparr>ident = Inner n, items = dims (items rows)\<rparr>;
          (c2, cd) = useMemo (colDims_cell h) [ident columns]
             \<lparr>ident = Inner (n + 1), items = dims (items columns)\<rparr>;
          (c3, rm) = useMemo (rowMeas_cell h) [ident rows]
             \<lparr>ident = Inner (n + 2), items = meas (items rows)\<rparr>;
          (c4, cm) = useMemo (colMeas_cell h) [ident columns]
             \<lparr>ident = Inner (n + 3), items = meas (items columns)\<rparr>;
          (c5, rf) = useMemo (rowFacetFields_cell h) [ident rd]
             \<lparr>ident = Inner (n + 4), items = facetFields (items rd)\<rparr>;
          (c6, cf) = useMemo (colFacetFields_cell h) [ident cd]
             \<lparr>ident = Inner (n + 5), items = facetFields (items cd)\<rparr>;
          (c7, rr) = useMemo (rowRepeatFields_cell h) [ident rd, ident rm]
             (repeatArray (n + 6) rd rm);
          (c8, cr) = useMemo (colRepeatFields_cell h) [ident rd, ident rm]
             (repeatArray (n + 7) cd cm)
      in (\<lparr>allocated = n + 8,
            rowDims_cell = c1, colDims_cell = c2, rowMeas_cell = c3, colMeas_cell = c4,
            rowFacetFields_cell = c5, colFacetFields_cell = c6,
            rowRepeatFields_cell = c7, colRepeatFields_cell = c8\<rparr>,
          \<lparr>rowDims = rd, colDims = cd, rowMeas = rm, colMeas = cm,
            rowFacetFields = rf, colFacetFields = cf,
            rowRepeatFields = rr, colRepeatFields = cr\<rparr>))"

text \<open>The number of placeholders the effect of lines 132 to 139 asks for.\<close>

definition planViewNum :: "plan \<Rightarrow> nat" where
  "planViewNum p = viewNum (items (rowRepeatFields p)) (items (colRepeatFields p))"

section \<open>Composite Spec Compiler\<close>

text \<open>
  The props of \<^verbatim>\<open>ReactVega\<close> that the compiler reads (lines 32 to 56).  The
  optional channels are \<open>None\<close> when the prop is \<^verbatim>\<open>undefined\<close>.
\<close>

record ReactVegaProps =
  rows :: "IViewField list"
  columns :: "IViewField list"
  color :: "IViewField option"
  opacity :: "IViewField option"
  size' :: "IViewField option"
  shape :: "IViewField option"
  theta :: "IViewField option"
  radius :: "IViewField option"
  details :: "IViewField list"
  interactiveScale :: bool

text \<open>
  \<^verbatim>\<open>[...rows, ...columns, color, opacity, size].filter(f => Boolean(f)).map(f => f.fid)\<close>
  (line 128).
\<close>

definition allFieldIds :: "ReactVegaProps \<Rightarrow> string list" where
  "allFieldIds p =
     map fid (concat (map (\<lambda>f. case f of None \<Rightarrow> [] | Some x \<Rightarrow> [x])
       (map Some (rows p) @ map Some (columns p) @ [color p, opacity p, size' p])))"

text \<open>
  Every field that the two calls of \<^verbatim>\<open>getSingleView\<close> bind to a channel (lines 183
  to 200 and 247 to 265): rows and columns (as x, y and the facet fields), color,
  opacity, size, shape, theta, radius and the details.
\<close>

definition channelFields :: "ReactVegaProps \<Rightarrow> IViewField list" where
  "channelFields p =
     rows p @ columns p
       @ concat (map (\<lambda>f. case f of None \<Rightarrow> [] | Some x \<Rightarrow> [x])
           [color p, opacity p, size' p, shape p, theta p, radius p])
       @ details p"

datatype selection = PointSelect "string list" | IntervalSelect

record param =
  name :: string
  select :: selection
  bind :: "string option"

definition SELECTION_NAME :: string where
  "SELECTION_NAME = ''geom''"

text \<open>
  A spec is a JavaScript object: a finite map from keys to values.  The values the
  compiler itself writes are the data rows and the params; everything else comes
  from \<^verbatim>\<open>getSingleView\<close>, which is outside this file, and is kept opaque.
\<close>

datatype ('row, 'x) specval = Data "'row list" | Params "param list" | Opaque 'x

type_synonym ('row, 'x) spec = "string \<rightharpoonup> ('row, 'x) specval"

text \<open>
  Lines 156 to 174: the shared top-level spec; \<^verbatim>\<open>spec.params.push\<close> appends the
  interval selection when \<^verbatim>\<open>interactiveScale\<close> is set.
\<close>

definition specParams :: "ReactVegaProps \<Rightarrow> param list" where
  "specParams p =
     (let params = [\<lparr>name = SELECTION_NAME, select = PointSelect (allFieldIds p), bind = None\<rparr>]
      in if interactiveScale p
         then params @ [\<lparr>name = ''grid'', select = IntervalSelect, bind = Some ''scales''\<rparr>]
         else params)"

definition commonSpec :: "ReactVegaProps \<Rightarrow> 'row list \<Rightarrow> ('row, 'x) spec" where
  "commonSpec p dataSource = [''data'' \<mapsto> Data dataSource, ''params'' \<mapsto> Params (specParams p)]"

text \<open>
  The single view (lines 202 to 205): \<^verbatim>\<open>mark\<close> is copied (an absent mark is
  written as \<^verbatim>\<open>undefined\<close>), \<^verbatim>\<open>encoding\<close> only when the fragment has it.  The
  sizing keys of lines 176 to 182 and 224 to 228 are not part of any property
  below and are left out of both specs.
\<close>

definition singleSpec :: "('row, 'x) spec \<Rightarrow> ('row, 'x) spec \<Rightarrow> ('row, 'x) spec" where
  "singleSpec spec singleView =
     (let spec1 = spec(''mark'' := singleView ''mark'')
      in if ''encoding'' \<in> dom singleView
         then spec1(''encoding'' := singleView ''encoding'')
         else spec1)"

text \<open>
  A cell of the grid (lines 267 to 272): \<^verbatim>\<open>{ ...commonSpec, ...singleView }\<close>, and
  then the params of the common spec again when it has any.
\<close>

definition cellSpec :: "('row, 'x) spec \<Rightarrow> ('row, 'x) spec \<Rightarrow> ('row, 'x) spec" where
  "cellSpec common singleView =
     (let ans = common ++ singleView
      in if ''params'' \<in> dom common then ans(''params'' := common ''params'') else ans)"

section \<open>Interaction Bus: the throttle\<close>

text \<open>
  Lines 230 to 236.  JavaScript numbers are doubles; the duration is a multiple of
  \<open>1/64\<close>, which a double holds exactly as long as the product of the three
  lengths stays below \<open>2^53\<close>, so the rationals compute the same value.
\<close>

record ThrottleConfig =
  leading :: bool
  trailing :: bool

definition throttleDuration :: "nat \<Rightarrow> nat \<Rightarrow> nat \<Rightarrow> rat" where
  "throttleDuration dataLength rowRepeatCount colRepeatCount =
     of_nat dataLength / 64 * of_nat rowRepeatCount * of_nat colRepeatCount"

definition throttledParamStore :: "nat \<Rightarrow> nat \<Rightarrow> nat \<Rightarrow> rat \<times> ThrottleConfig" where
  "throttledParamStore dataLength rowRepeatCount colRepeatCount =
     (throttleDuration dataLength rowRepeatCount colRepeatCount,
      \<lparr>leading = False, trailing = True\<rparr>)"

section \<open>Render Orchestrator and View Handle Facade\<close>

text \<open>
  The state that outlives a render: \<^verbatim>\<open>vegaRefs.current\<close>, the subject
  \<^verbatim>\<open>ready$.current\<close> with its subscribers, and the promises of the embed cycles
  that the effect of lines 144 to 369 has started.

  A renderer handle (\<^verbatim>\<open>res.view\<close>) is named by the cycle that embedded it and the
  index of its cell.
\<close>

type_synonym view = "nat \<times> nat"

text \<open>
  The promise that \<^verbatim>\<open>embed\<close> returns for a cell: never created (no node for the
  cell: a hole of \<^verbatim>\<open>viewPromises\<close>), pending, fulfilled or rejected.
\<close>

datatype embed = NotIssued | Pending | Fulfilled | Rejected

record cycle =
  single :: bool
  embeds :: "embed list"

text \<open>
  What goes through \<^verbatim>\<open>ready$\<close>: \<^verbatim>\<open>next(true)\<close>, sent by the embed cycle with the
  given number (lines 210 and 338), and \<^verbatim>\<open>next(false)\<close>, sent by
  \<^verbatim>\<open>setUnready\<close> (line 388).
\<close>

datatype emission = ReadyOf nat | Unready

definition state_of :: "emission \<Rightarrow> bool" where
  "state_of e = (case e of ReadyOf k \<Rightarrow> True | Unready \<Rightarrow> False)"

record orchestrator =
  vegaRefs :: "view list"
  emitted :: "emission list"
  subscribers :: "nat list"
  resolved :: "nat list"
  calls :: nat
  cycles :: "cycle list"

definition initial :: orchestrator where
  "initial = \<lparr>vegaRefs = [], emitted = [], subscribers = [], resolved = [], calls = 0, cycles = []\<rparr>"

text \<open>
  \<^verbatim>\<open>ready$.current.next(v)\<close>.  A \<^verbatim>\<open>Subject\<close> hands the value to the observers
  subscribed at that moment and keeps nothing.  Every observer here is the
  \<^verbatim>\<open>first((state) => state)\<close> of a \<^verbatim>\<open>ready()\<close> call: on a true value its promise
  resolves and it unsubscribes, on a false value it stays.
\<close>

definition subject_next :: "emission \<Rightarrow> orchestrator \<Rightarrow> orchestrator" where
  "subject_next e s =
     (let s1 = s\<lparr>emitted := emitted s @ [e]\<rparr>
      in if state_of e
         then s1\<lparr>resolved := resolved s1 @ subscribers s1, subscribers := []\<rparr>
         else s1)"

text \<open>
  \<^verbatim>\<open>ready()\<close> (lines 394 to 399): the promise it returns is numbered by the count of
  earlier calls.  \<^verbatim>\<open>startWith(false)\<close> hands the seed to \<^verbatim>\<open>first\<close> on subscription;
  the seed does not satisfy the predicate, so the observer goes on to subscribe to
  the subject.
\<close>

definition ready :: "orchestrator \<Rightarrow> orchestrator" where
  "ready s =
     (let p = calls s; seed = False
      in if seed
         then s\<lparr>resolved := resolved s @ [p], calls := p + 1\<rparr>
         else s\<lparr>subscribers := subscribers s @ [p], calls := p + 1\<rparr>)"

definition setUnready :: "orchestrator \<Rightarrow> orchestrator" where
  "setUnready s = subject_next Unready s"

text \<open>
  \<^verbatim>\<open>viewPlaceholders\<close> is given as the list that tells, for each placeholder,
  whether its \<^verbatim>\<open>current\<close> is set.  Lines 266 and 207.
\<close>

definition node :: "bool list \<Rightarrow> nat \<Rightarrow> bool" where
  "node viewPlaceholders k = (k < length viewPlaceholders \<and> viewPlaceholders ! k)"

text \<open>
  The two loops of lines 243 to 336, as far as the promises go: for the cell
  \<open>(i, j)\<close> with a node, \<^verbatim>\<open>viewPromises[i * c + j]\<close> is created and the embed issued.
\<close>

definition issue :: "bool list \<Rightarrow> nat \<Rightarrow> nat \<Rightarrow> embed list" where
  "issue viewPlaceholders r c =
     concat (map (\<lambda>i. map (\<lambda>j. if node viewPlaceholders (i * c + j) then Pending else NotIssued)
                         [0..<c])
                 [0..<r])"

text \<open>
  \<^verbatim>\<open>Promise.all(viewPromises)\<close> is fulfilled when every promise of the array is; a
  hole counts as a fulfilled value.  A promise of \<^verbatim>\<open>viewPromises\<close> is fulfilled by
  \<^verbatim>\<open>viewResolves[idx]()\<close>, which only the callback of a fulfilled embed calls.
\<close>

definition all_fulfilled :: "embed list \<Rightarrow> bool" where
  "all_fulfilled es = list_all (\<lambda>e. e = Fulfilled \<or> e = NotIssued) es"

text \<open>
  One run of the effect (lines 144 to 343) with \<open>r\<close> row-repeat fields and \<open>c\<close>
  column-repeat fields.  The callback of \<^verbatim>\<open>Promise.all\<close> is a microtask; it is run
  here together with the step that fulfils the last promise.
\<close>

definition useEffect :: "nat \<Rightarrow> nat \<Rightarrow> bool list \<Rightarrow> orchestrator \<Rightarrow> orchestrator" where
  "useEffect r c viewPlaceholders s =
     (let k = length (cycles s);
          s1 = s\<lparr>vegaRefs := []\<rparr>
      in if r \<le> 1 \<and> c \<le> 1
         then s1\<lparr>cycles := cycles s1 @
                  [\<lparr>single = True,
                    embeds = [if node viewPlaceholders 0 then Pending else NotIssued]\<rparr>]\<rparr>
         else
           let es = issue viewPlaceholders r c;
               s2 = s1\<lparr>cycles := cycles s1 @ [\<lparr>single = False, embeds = es\<rparr>]\<rparr>
           in if all_fulfilled es then subject_next (ReadyOf k) s2 else s2)"

definition is_pending :: "orchestrator \<Rightarrow> nat \<Rightarrow> nat \<Rightarrow> bool" where
  "is_pending s k idx =
     (k < length (cycles s) \<and> idx < length (embeds (cycles s ! k))
      \<and> embeds (cycles s ! k) ! idx = Pending)"

text \<open>
  The embed of cell \<open>idx\<close> of cycle \<open>k\<close> is fulfilled and its \<^verbatim>\<open>then\<close> callback
  runs: line 210 in the single view; lines 331 and 332, and then line 338 if this
  was the last promise, in the grid.
\<close>

definition embed_fulfilled :: "nat \<Rightarrow> nat \<Rightarrow> orchestrator \<Rightarrow> orchestrator" where
  "embed_fulfilled k idx s =
     (if is_pending s k idx
      then
        let cy = cycles s ! k;
            cy1 = cy\<lparr>embeds := (embeds cy)[idx := Fulfilled]\<rparr>;
            s1 = s\<lparr>cycles := (cycles s)[k := cy1]\<rparr>
        in if single cy
           then subject_next (ReadyOf k) s1
           else
             let s2 = s1\<lparr>vegaRefs := vegaRefs s1 @ [(k, idx)]\<rparr>
             in if all_fulfilled (embeds cy1) then subject_next (ReadyOf k) s2 else s2
      else s)"

text \<open>The embed is rejected: no callback is registered for that.\<close>

definition embed_rejected :: "nat \<Rightarrow> nat \<Rightarrow> orchestrator \<Rightarrow> orchestrator" where
  "embed_rejected k idx s =
     (if is_pending s k idx
      then
        let cy = cycles s ! k;
            cy1 = cy\<lparr>embeds := (embeds cy)[idx := Rejected]\<rparr>
        in s\<lparr>cycles := (cycles s)[k := cy1]\<rparr>
      else s)"

datatype event =
    Effect nat nat "bool list"
  | EmbedFulfilled nat nat
  | EmbedRejected nat nat
  | SetUnready
  | Ready

fun step :: "event \<Rightarrow> orchestrator \<Rightarrow> orchestrator" where
  "step (Effect r c viewPlaceholders) s = useEffect r c viewPlaceholders s"
| "step (EmbedFulfilled k idx) s = embed_fulfilled k idx s"
| "step (EmbedRejected k idx) s = embed_rejected k idx s"
| "step SetUnready s = setUnready s"
| "step Ready s = ready s"

definition run :: "event list \<Rightarrow> orchestrator \<Rightarrow> orchestrator" where
  "run es s = foldl (\<lambda>s e. step e s) s es"

text \<open>How many times \<^verbatim>\<open>ready$\<close> has sent true.\<close>

definition readyCount :: "orchestrator \<Rightarrow> nat" where
  "readyCount s = length (filter state_of (emitted s))"

subsection \<open>Export and download (lines 411 to 447)\<close>

text \<open>
  \<^verbatim>\<open>Promise.all\<close> over promises that have settled: the list of the values, or the
  rejection.
\<close>

fun promise_all :: "('e + 'a) list \<Rightarrow> 'e + 'a list" where
  "promise_all [] = Inr []"
| "promise_all (p # ps) =
     (case p of
        Inl e \<Rightarrow> Inl e
      | Inr x \<Rightarrow> (case promise_all ps of Inl e \<Rightarrow> Inl e | Inr xs \<Rightarrow> Inr (x # xs)))"

text \<open>
  The renderer is opaque: \<^verbatim>\<open>view.toSVG()\<close>, \<^verbatim>\<open>view.toCanvas(scale)\<close> and
  \<^verbatim>\<open>canvas.toDataURL(type, quality)\<close> are parameters.
\<close>

definition getSVGData :: "(view \<Rightarrow> 'e + string) \<Rightarrow> orchestrator \<Rightarrow> 'e + string list" where
  "getSVGData toSVG s = promise_all (map toSVG (vegaRefs s))"

definition getCanvasData ::
  "(nat option \<Rightarrow> view \<Rightarrow> 'e + 'c) \<Rightarrow> ('c \<Rightarrow> string \<Rightarrow> nat option \<Rightarrow> string)
     \<Rightarrow> orchestrator \<Rightarrow> 'e + string list" where
  "getCanvasData toCanvas toDataURL s =
     (case promise_all (map (toCanvas None) (vegaRefs s)) of
        Inl e \<Rightarrow> Inl e
      | Inr canvases \<Rightarrow> Inr (map (\<lambda>canvas. toDataURL canvas ''image/png'' None) canvases))"

text \<open>The decimal digits of a number, as a template literal prints it.\<close>

function string_of_nat :: "nat \<Rightarrow> string" where
  "string_of_nat n =
     (if n < 10 then [char_of (48 + n)]
      else string_of_nat (n div 10) @ [char_of (48 + n mod 10)])"
  by pat_completeness auto
termination
  by (relation "measure id") auto

declare string_of_nat.simps [simp del]

text \<open>
  A click on an anchor element: the download name and where the link points, an
  object URL of a file with the given content or the string itself.
\<close>

datatype href = ObjectURL string | Url string

record anchor =
  download :: string
  href :: href

text \<open>
  \<^verbatim>\<open>d.replace(/^data:image\/[^;]/, 'data:application/octet-stream')\<close>: the prefix and
  the one character after it, when that is not a semicolon.
\<close>

definition replace_image :: "string \<Rightarrow> string" where
  "replace_image d =
     (if take 11 d = ''data:image/'' \<and> 11 < length d \<and> d ! 11 \<noteq> CHR '';''
      then ''data:application/octet-stream'' @ drop 12 d
      else d)"

text \<open>
  The loops of lines 421 to 432 and 439 to 445, started at \<open>i\<close> with the files and
  the clicks so far.
\<close>

function downloadSVG_loop ::
  "string \<Rightarrow> string list \<Rightarrow> nat \<Rightarrow> string list \<Rightarrow> anchor list \<Rightarrow> string list \<times> anchor list" where
  "downloadSVG_loop filename dat i files clicks =
     (if i < length dat
      then
        let d = dat ! i;
            file_name =
              filename @ (if length dat > 1 then ''_'' @ string_of_nat (i + 1) else []) @ ''.svg'';
            a = \<lparr>download = file_name, href = ObjectURL d\<rparr>
        in downloadSVG_loop filename dat (i + 1) files (clicks @ [a])
      else (files, clicks))"
  by pat_completeness auto
termination
  by (relation "measure (\<lambda>(filename, dat, i, files, clicks). length dat - i)") auto

function downloadPNG_loop ::
  "string \<Rightarrow> string list \<Rightarrow> nat \<Rightarrow> string list \<Rightarrow> anchor list \<Rightarrow> string list \<times> anchor list" where
  "downloadPNG_loop filename dat i files clicks =
     (if i < length dat
      then
        let d = dat ! i;
            a = \<lparr>download =
                   filename @ (if length dat > 1 then ''_'' @ string_of_nat (i + 1) else []) @ ''.png'',
                 href = Url (replace_image d)\<rparr>
        in downloadPNG_loop filename dat (i + 1) files (clicks @ [a])
      else (files, clicks))"
  by pat_completeness auto
termination
  by (relation "measure (\<lambda>(filename, dat, i, files, clicks). length dat - i)") auto

declare downloadSVG_loop.simps [simp del] downloadPNG_loop.simps [simp del]

text \<open>
  The result of a download is the value its promise resolves to (\<^verbatim>\<open>files\<close>)
  together with the clicks it has made, or the rejection of an export.  The default
  file name is computed from the clock by the caller and is an argument here.
\<close>

definition downloadSVG ::
  "(view \<Rightarrow> 'e + string) \<Rightarrow> string \<Rightarrow> orchestrator \<Rightarrow> 'e + string list \<times> anchor list" where
  "downloadSVG toSVG filename s =
     (case promise_all (map toSVG (vegaRefs s)) of
        Inl e \<Rightarrow> Inl e
      | Inr dat \<Rightarrow> Inr (downloadSVG_loop filename dat 0 [] []))"

definition downloadPNG ::
  "(nat option \<Rightarrow> view \<Rightarrow> 'e + 'c) \<Rightarrow> ('c \<Rightarrow> string \<Rightarrow> nat option \<Rightarrow> string)
     \<Rightarrow> string \<Rightarrow> orchestrator \<Rightarrow> 'e + string list \<times> anchor list" where
  "downloadPNG toCanvas toDataURL filename s =
     (case promise_all (map (toCanvas (Some 2)) (vegaRefs s)) of
        Inl e \<Rightarrow> Inl e
      | Inr canvases \<Rightarrow>
          Inr (downloadPNG_loop filename
                 (map (\<lambda>canvas. toDataURL canvas ''image/png'' (Some 1)) canvases) 0 [] []))"

section \<open>Interaction Bus: emission and subscription\<close>

datatype signal = BRUSH_SIGNAL_NAME | POINT_SIGNAL_NAME

text \<open>
  \<^verbatim>\<open>ParamStoreEntry\<close> (lines 73 to 78).  The data of a selection store is an array
  of tuples, \<open>None\<close> when the store is absent (\<^verbatim>\<open>data ?? null\<close>).
\<close>

record 'd ParamStoreEntry =
  signal :: signal
  source :: nat
  data :: "'d list option"

text \<open>
  One round of the loop \<^verbatim>\<open>for (const param of paramStores)\<close> (lines 281 to 312)
  makes one closure: the param, its flag \<^verbatim>\<open>noBroadcasting\<close>, one signal listener
  and one subscription to the throttled channel.
\<close>

record tap =
  param :: signal
  noBroadcasting :: bool

text \<open>
  A view instance: its \<^verbatim>\<open>sourceId\<close>, the closures of its params, the selection
  stores of its renderer (\<^verbatim>\<open>res.view.getState().data\<close>) and the
  \<^verbatim>\<open>res.view.setState\<close> calls made so far.
\<close>

record 'd viewInstance =
  sourceId :: nat
  taps :: "tap list"
  stores :: "signal \<Rightarrow> 'd list option"
  setStates :: "(signal \<times> 'd list) list"

text \<open>
  The signal listener (lines 284 to 300), called by the renderer with the name of
  the signal.  It returns the closure, the entries pushed to
  \<^verbatim>\<open>combinedParamStore$\<close>, and whether \<^verbatim>\<open>setCrossFilterTriggerIdx(-1)\<close> ran.
\<close>

definition signalListener ::
  "nat \<Rightarrow> (signal \<Rightarrow> 'd list option) \<Rightarrow> signal \<Rightarrow> tap
     \<Rightarrow> tap \<times> 'd ParamStoreEntry list \<times> bool" where
  "signalListener sid st nm t =
     (if noBroadcasting t then (t\<lparr>noBroadcasting := False\<rparr>, [], False)
      else if nm \<in> set [BRUSH_SIGNAL_NAME, POINT_SIGNAL_NAME]
      then
        let dat = st nm
        in (t, [\<lparr>signal = nm, source = sid, data = dat\<rparr>], dat = None \<or> dat = Some [])
      else (t, [], False))"

text \<open>
  The subscriber (lines 301 to 311).  \<^verbatim>\<open>!entry.data\<close> holds for \<^verbatim>\<open>null\<close>; an array,
  empty or not, is truthy.  It returns the closure and the \<^verbatim>\<open>setState\<close> calls made.
\<close>

definition subscriber ::
  "nat \<Rightarrow> 'd ParamStoreEntry \<Rightarrow> tap \<Rightarrow> tap \<times> (signal \<times> 'd list) list" where
  "subscriber sid entry t =
     (case data entry of
        None \<Rightarrow> (t, [])
      | Some dat \<Rightarrow>
          if source entry = sid then (t, [])
          else (t\<lparr>noBroadcasting := True\<rparr>, [(signal entry, dat)]))"

text \<open>
  The throttled channel delivers an entry to a view instance: each of its
  subscriptions runs, in the order they were made.
\<close>

definition receive :: "'d ParamStoreEntry \<Rightarrow> 'd viewInstance \<Rightarrow> 'd viewInstance" where
  "receive entry inst =
     (let rs = map (subscriber (sourceId inst) entry) (taps inst);
          ws = concat (map snd rs)
      in inst\<lparr>taps := map fst rs,
              stores := foldl (\<lambda>st (sg, dat). st(sg := Some dat)) (stores inst) ws,
              setStates := setStates inst @ ws\<rparr>)"

text \<open>
  The renderer fires the signal \<open>nm\<close> of a view instance: the listeners added for
  that signal run.  The result is the instance and the entries they broadcast.
\<close>

definition fire :: "signal \<Rightarrow> 'd viewInstance \<Rightarrow> 'd viewInstance \<times> 'd ParamStoreEntry list" where
  "fire nm inst =
     (let rs = map (\<lambda>t. if param t = nm
                         then signalListener (sourceId inst) (stores inst) nm t
                         else (t, [], False))
                   (taps inst)
      in (inst\<lparr>taps := map fst rs\<rparr>, concat (map (\<lambda>r. fst (snd r)) rs)))"

text \<open>
  Modelled from the spec: how the renderer reacts to \<^verbatim>\<open>setState\<close> is not in the
  repository.  The spec (4.4, step 4) says that the local write re-triggers the
  signal listener of the written store, once: after an entry has been received, the
  signal of each store written fires once.
\<close>

definition relay :: "'d ParamStoreEntry \<Rightarrow> 'd viewInstance \<Rightarrow> 'd viewInstance \<times> 'd ParamStoreEntry list" where
  "relay entry inst =
     (let inst1 = receive entry inst;
          written = drop (length (setStates inst)) (setStates inst1)
      in foldl (\<lambda>(i, out) (sg, dat). let (i1, more) = fire sg i in (i1, out @ more))
               (inst1, []) written)"

text \<open>
  The grid after every embed has resolved, each view with the param stores \<open>ps\<close>
  found in its compiled spec (line 277); \<^verbatim>\<open>sourceId\<close> is the running \<^verbatim>\<open>index\<close>.
\<close>

definition wired :: "nat \<Rightarrow> signal list \<Rightarrow> 'd viewInstance list" where
  "wired n ps =
     map (\<lambda>i. \<lparr>sourceId = i,
                taps = map (\<lambda>p. \<lparr>param = p, noBroadcasting = False\<rparr>) ps,
                stores = (\<lambda>sg. None),
                setStates = []\<rparr>)
         [0..<n]"

section \<open>Renderer: the data pipeline effect\<close>

text \<open>
  \<^verbatim>\<open>renderer/index.tsx\<close>, lines 40 to 68.  The three services are outside the
  repository's core and are parameters; each returns a promise, taken here as
  settled: \<open>Inl\<close> is a rejection.
\<close>

datatype query_op = aggregate | raw

record IViewQuery =
  op :: query_op
  groupBy :: "string list"
  agg :: "string \<rightharpoonup> string option"

record IVisualConfig =
  defaultAggregated :: bool

record ('src, 'flt, 'row, 'e) services =
  applyFilter :: "'src \<Rightarrow> 'flt \<Rightarrow> 'e + 'row list"
  transformDataService :: "'row list \<Rightarrow> IViewField list \<Rightarrow> 'e + 'row list"
  applyViewQuery :: "'row list \<Rightarrow> IViewField list \<Rightarrow> IViewQuery \<Rightarrow> 'e + 'row list"

text \<open>The observable store, as read when a callback runs.\<close>

record ('src, 'flt, 'enc) store =
  dataSource :: 'src
  viewFilters :: 'flt
  allFields :: "IViewField list"
  viewDimensions :: "IViewField list"
  viewMeasures :: "IViewField list"
  visualConfig :: IVisualConfig
  draggableFieldState :: 'enc

text \<open>
  The state of the component: the four \<^verbatim>\<open>useState\<close> cells, the errors written to
  the console and the number of \<^verbatim>\<open>setUnready\<close> calls sent to the chart.
\<close>

record ('row, 'enc, 'e) renderer =
  waiting :: bool
  viewConfig :: IVisualConfig
  encodings :: 'enc
  viewData :: "'row list"
  console_error :: "'e list"
  unready_sent :: nat

text \<open>
  \<^verbatim>\<open>promise.then(f)\<close> and \<^verbatim>\<open>promise.catch(f)\<close> for callbacks that act on the
  component state: a promise is the state when it settles together with its
  outcome.
\<close>

definition then_do ::
  "'s \<times> ('e + 'a) \<Rightarrow> ('a \<Rightarrow> 's \<Rightarrow> 's \<times> ('e + 'b)) \<Rightarrow> 's \<times> ('e + 'b)" where
  "then_do p f = (case snd p of Inl e \<Rightarrow> (fst p, Inl e) | Inr x \<Rightarrow> f x (fst p))"

definition catch_do ::
  "'s \<times> ('e + 'a) \<Rightarrow> ('e \<Rightarrow> 's \<Rightarrow> 's \<times> ('e + 'a)) \<Rightarrow> 's \<times> ('e + 'a)" where
  "catch_do p f = (case snd p of Inl e \<Rightarrow> f e (fst p) | Inr x \<Rightarrow> (fst p, Inr x))"

text \<open>The query of lines 50 to 54.\<close>

definition viewQuery :: "IVisualConfig \<Rightarrow> IViewField list \<Rightarrow> IViewField list \<Rightarrow> IViewQuery" where
  "viewQuery config ds ms =
     \<lparr>op = (if defaultAggregated config then aggregate else raw),
      groupBy = map fid ds,
      agg = map_of (rev (map (\<lambda>f. (fid f, aggName f)) ms))\<rparr>"

text \<open>
  The effect.  \<open>mounted\<close> tells whether \<^verbatim>\<open>targetRef.current\<close> is set.  The result is
  the state of the component and the outcome of the promise that ends the chain.
\<close>

definition dataEffect ::
  "('src, 'flt, 'row, 'e) services \<Rightarrow> ('src, 'flt, 'enc) store \<Rightarrow> bool
     \<Rightarrow> ('row, 'enc, 'e) renderer \<Rightarrow> ('row, 'enc, 'e) renderer \<times> ('e + unit)" where
  "dataEffect svc st mounted s =
     (let s1 = s\<lparr>unready_sent := unready_sent s + (if mounted then 1 else 0)\<rparr>;
          s2 = s1\<lparr>waiting := True\<rparr>;
          p1 = (s2, applyFilter svc (dataSource st) (viewFilters st));
          p2 = then_do p1 (\<lambda>dat s. (s, transformDataService svc dat (allFields st)));
          p3 = then_do p2 (\<lambda>d s.
                 let ds = viewDimensions st;
                     ms = viewMeasures st;
                     config = visualConfig st
                 in (s, applyViewQuery svc d (ds @ ms) (viewQuery config ds ms)));
          p4 = then_do p3 (\<lambda>dat s.
                 (s\<lparr>viewData := dat, waiting := False,
                    encodings := draggableFieldState st,
                    viewConfig := visualConfig st\<rparr>, Inr ()))
      in catch_do p4 (\<lambda>err s. (s\<lparr>console_error := console_error s @ [err], waiting := False\<rparr>, Inr ())))"

text \<open>The outcome of the three services alone.\<close>

definition pipeline ::
  "('src, 'flt, 'row, 'e) services \<Rightarrow> ('src, 'flt, 'enc) store \<Rightarrow> 'e + 'row list" where
  "pipeline svc st =
     (case applyFilter svc (dataSource st) (viewFilters st) of
        Inl e \<Rightarrow> Inl e
      | Inr dat \<Rightarrow>
          (case transformDataService svc dat (allFields st) of
             Inl e \<Rightarrow> Inl e
           | Inr d \<Rightarrow>
               applyViewQuery svc d (viewDimensions st @ viewMeasures st)
                 (viewQuery (visualConfig st) (viewDimensions st) (viewMeasures st))))"

section \<open>Inputs of the examples\<close>

text \<open>Fields of a sales table, used where a property is evaluated on an input.\<close>

definition sales :: IViewField where
  "sales = \<lparr>fid = ''sales'', analyticType = Measure, aggName = Some ''sum''\<rparr>"

definition profit :: IViewField where
  "profit = \<lparr>fid = ''profit'', analyticType = Measure, aggName = Some ''sum''\<rparr>"

definition cost :: IViewField where
  "cost = \<lparr>fid = ''cost'', analyticType = Measure, aggName = Some ''sum''\<rparr>"

definition region :: IViewField where
  "region = \<lparr>fid = ''region'', analyticType = Dimension, aggName = None\<rparr>"

definition city :: IViewField where
  "city = \<lparr>fid = ''city'', analyticType = Dimension, aggName = None\<rparr>"

definition species :: IViewField where
  "species = \<lparr>fid = ''species'', analyticType = Dimension, aggName = None\<rparr>"

text \<open>A value for the parameter \<^verbatim>\<open>NULL_FIELD\<close> in the examples: a field with no id.\<close>

definition NULL_FIELD :: IViewField where
  "NULL_FIELD = \<lparr>fid = [], analyticType = Measure, aggName = Some ''sum''\<rparr>"

text \<open>
  A pipeline whose second service rejects, the state of a renderer that shows an
  earlier result, and a store that has changed since.
\<close>

definition failing :: "(nat list, unit, nat, string) services" where
  "failing = \<lparr>applyFilter = (\<lambda>src flt. Inr src),
              transformDataService = (\<lambda>dat fs. Inl ''transform failed''),
              applyViewQuery = (\<lambda>d fs q. Inr d)\<rparr>"

definition shown :: "(nat, string, string) renderer" where
  "shown = \<lparr>waiting = False, viewConfig = \<lparr>defaultAggregated = True\<rparr>, encodings = ''old'',
            viewData = [1, 2, 3], console_error = [], unready_sent = 0\<rparr>"

definition changed :: "(nat list, unit, string) store" where
  "changed = \<lparr>dataSource = [4, 5], viewFilters = (), allFields = [region, sales],
              viewDimensions = [region], viewMeasures = [sales],
              visualConfig = \<lparr>defaultAggregated = False\<rparr>, draggableFieldState = ''new''\<rparr>"

section \<open>Vocabulary of the proofs about the orchestrator\<close>

text \<open>
  What one step does to the readiness channel: nothing that a subscriber sees,
  a true value (every subscriber's promise resolves), or one more subscriber.
\<close>

definition quiet :: "orchestrator \<Rightarrow> orchestrator \<Rightarrow> bool" where
  "quiet s t \<longleftrightarrow>
     readyCount t = readyCount s \<and> resolved t = resolved s
     \<and> subscribers t = subscribers s \<and> calls t = calls s"

definition announces :: "orchestrator \<Rightarrow> orchestrator \<Rightarrow> bool" where
  "announces s t \<longleftrightarrow>
     readyCount t = Suc (readyCount s) \<and> resolved t = resolved s @ subscribers s
     \<and> subscribers t = [] \<and> calls t = calls s"

definition subscribes :: "orchestrator \<Rightarrow> orchestrator \<Rightarrow> bool" where
  "subscribes s t \<longleftrightarrow>
     readyCount t = readyCount s \<and> resolved t = resolved s
     \<and> subscribers t = subscribers s @ [calls s] \<and> calls t = Suc (calls s)"

text \<open>The promises of \<^verbatim>\<open>ready()\<close> are numbered below the count of calls.\<close>

definition numbered :: "orchestrator \<Rightarrow> bool" where
  "numbered s \<longleftrightarrow>
     (\<forall>p \<in> set (subscribers s). p < calls s \<and> p \<notin> set (resolved s))
     \<and> (\<forall>p \<in> set (resolved s). p < calls s)"

text \<open>
  The condition under which the code of a cycle sends true: the one embed of a
  single view is fulfilled (line 210), or \<^verbatim>\<open>Promise.all(viewPromises)\<close> is (line 337).
\<close>

definition complete :: "cycle \<Rightarrow> bool" where
  "complete cy = (if single cy then embeds cy = [Fulfilled] else all_fulfilled (embeds cy))"

text \<open>The invariant: a cycle has sent true exactly if it is complete.\<close>

definition announced :: "orchestrator \<Rightarrow> bool" where
  "announced s \<longleftrightarrow>
     (\<forall>k. ReadyOf k \<in> set (emitted s) \<longrightarrow> k < length (cycles s))
     \<and> (\<forall>k < length (cycles s).
          (ReadyOf k \<in> set (emitted s)) = complete (cycles s ! k)
          \<and> (single (cycles s ! k) \<longrightarrow> length (embeds (cycles s ! k)) = 1))"

section \<open>Facts about the planner\<close>

lemma slice_butlast: "slice xs 0 (Some (- 1)) = butlast xs"
proof (cases xs rule: rev_cases)
  case Nil
  then show ?thesis by (simp add: slice_def)
next
  case (snoc ys y)
  then show ?thesis by (simp add: slice_def Let_def)
qed

lemma slice_last: "slice xs (- 1) None = (if xs = [] then [] else [last xs])"
proof (cases xs rule: rev_cases)
  case Nil
  then show ?thesis by (simp add: slice_def)
next
  case (snoc ys y)
  then show ?thesis by (simp add: slice_def Let_def)
qed


lemma dims_meas_partition: "meas fs = [] \<Longrightarrow> dims fs = fs"
  unfolding dims_def meas_def
  by (induction fs) (auto split: if_splits intro: IAnalyticType.exhaust)

text \<open>
  What the callbacks of lines 126 and 127 compute from the fields of one axis: the
  measures if there are any, otherwise the last field (a dimension), otherwise
  nothing.
\<close>

lemma repeatFields_policy:
  "repeatFields (dims fs) (meas fs) =
     (if meas fs \<noteq> [] then meas fs else if fs = [] then [] else [last fs])"
  by (simp add: repeatFields_def slice_last dims_meas_partition)

lemma viewNum_no_measures:
  "meas rs = [] \<Longrightarrow> meas cs = [] \<Longrightarrow>
     viewNum (repeatFields (dims rs) (meas rs)) (repeatFields (dims cs) (meas cs)) = 1"
  using repeatFields_policy [of rs] repeatFields_policy [of cs]
  by (simp add: viewNum_def)

lemma gridSize_measures:
  "meas cs \<noteq> [] \<Longrightarrow> gridSize (repeatFields (dims cs) (meas cs)) = length (meas cs)"
  using repeatFields_policy [of cs]
  by (cases "meas cs") (simp_all add: gridSize_def)

lemma items_repeatArray: "items (repeatArray n ds ms) = repeatFields (items ds) (items ms)"
  by (simp add: repeatArray_def repeatFields_def)

text \<open>On the first render every hook runs its callback.\<close>

lemma render_mount:
  "snd (render mount r c) =
     \<lparr>rowDims = \<lparr>ident = Inner 0, items = dims (items r)\<rparr>,
      colDims = \<lparr>ident = Inner 1, items = dims (items c)\<rparr>,
      rowMeas = \<lparr>ident = Inner 2, items = meas (items r)\<rparr>,
      colMeas = \<lparr>ident = Inner 3, items = meas (items c)\<rparr>,
      rowFacetFields = \<lparr>ident = Inner 4, items = facetFields (dims (items r))\<rparr>,
      colFacetFields = \<lparr>ident = Inner 5, items = facetFields (dims (items c))\<rparr>,
      rowRepeatFields = repeatArray 6 \<lparr>ident = Inner 0, items = dims (items r)\<rparr>
                                     \<lparr>ident = Inner 2, items = meas (items r)\<rparr>,
      colRepeatFields = repeatArray 7 \<lparr>ident = Inner 1, items = dims (items c)\<rparr>
                                     \<lparr>ident = Inner 3, items = meas (items c)\<rparr>\<rparr>"
  by (simp add: render_def mount_def useMemo_def Let_def del: add_2_eq_Suc add_2_eq_Suc')

lemma mount_rowRepeatFields:
  "items (rowRepeatFields (snd (render mount r c)))
     = repeatFields (dims (items r)) (meas (items r))"
  by (simp add: render_mount items_repeatArray)

lemma mount_colRepeatFields:
  "items (colRepeatFields (snd (render mount r c)))
     = repeatFields (dims (items c)) (meas (items c))"
  by (simp add: render_mount items_repeatArray)

text \<open>
  Claim C4.  The claim: for every row/column assignment the repeat fields of an
  axis are its measures when it has any, and the number of placeholders is
  \<open>max 1 (rowRepeatCount * colRepeatCount)\<close>, so that \<open>M\<close> measures on the columns
  give \<open>M\<close> columns.

  On the first render this is what the code computes (\<open>mount_colRepeatFields\<close>,
  \<open>repeatFields_policy\<close>).  On a later render it is not: the memo of
  \<^verbatim>\<open>colRepeatFields\<close> (line 127) lists the dependencies \<^verbatim>\<open>[rowDims, rowMeas]\<close> of
  the line above it instead of \<^verbatim>\<open>[colDims, colMeas]\<close>.  The component is mounted
  with the measure \<open>sales\<close> on the rows and no column, and rendered again with the
  same rows array and the two measures \<open>profit\<close> and \<open>cost\<close> on the columns.  The
  column measures are then \<open>profit\<close> and \<open>cost\<close>, but the column repeat fields are
  still those of the first render, none, and one placeholder is asked for where
  the claim gives two.
\<close>

theorem colRepeatFields_stale:
  "(let R = \<lparr>ident = Outer 0, items = [sales]\<rparr>;
        C1 = \<lparr>ident = Outer 1, items = []\<rparr>;
        C2 = \<lparr>ident = Outer 2, items = [profit, cost]\<rparr>;
        (h1, p1) = render mount R C1;
        (h2, p2) = render h1 R C2
    in items (rowRepeatFields p2) = [sales]
       \<and> items (colMeas p2) = [profit, cost]
       \<and> items (colRepeatFields p2) = []
       \<and> planViewNum p2 = 1)"
  by (simp add: render_def mount_def useMemo_def Let_def repeatArray_def dims_def meas_def
        slice_def planViewNum_def viewNum_def sales_def profit_def cost_def facetFields_def)

lemma dims_butlast_dimension:
  "fs = [] \<or> analyticType (last fs) = Dimension \<Longrightarrow> dims (butlast fs) = butlast (dims fs)"
  by (cases fs rule: rev_cases) (simp_all add: dims_def)

lemma dims_butlast_measure:
  "fs \<noteq> [] \<Longrightarrow> analyticType (last fs) = Measure \<Longrightarrow> dims (butlast fs) = dims fs"
  by (cases fs rule: rev_cases) (simp_all add: dims_def)

lemma facetField_eq:
  "facetField nf fs = (if dims (butlast fs) = [] then nf else last (dims (butlast fs)))"
  by (simp add: facetField_def leftFacetFields_def slice_butlast Let_def last_conv_nth)

text \<open>
  Claim C5, as stated: the facet field bound into each view is the last of the
  facet fields (all but the last dimension of the axis), also when the last field
  of the axis is a measure preceded by dimensions.  With the rows \<open>region\<close>,
  \<open>city\<close>, \<open>sales\<close> the facet fields are \<open>region\<close> alone, and the field bound into the
  row channel is \<open>city\<close>.
\<close>

theorem facetField_measure_last_counterexample:
  "facetFields (dims [region, city, sales]) = [region]
   \<and> facetField NULL_FIELD [region, city, sales] = city
   \<and> city \<noteq> last (facetFields (dims [region, city, sales]))"
  by (simp add: facetField_def leftFacetFields_def facetFields_def dims_def slice_def
        region_def city_def sales_def)

lemma last_notin_butlast: "distinct xs \<Longrightarrow> xs \<noteq> [] \<Longrightarrow> last xs \<notin> set (butlast xs)"
  by (cases xs rule: rev_cases) simp_all

text \<open>
  Claim C5, amended.  For every axis assignment the facet fields are all but the
  last dimension of the axis.  The facet field bound into each view is the last
  dimension among the fields before the last field of the axis, or the null field
  when there is none.  It is the last of the facet fields when the last field of
  the axis is a dimension or the axis is empty; when the last field is a measure it
  is the last dimension of the axis, and that is not one of the facet fields when
  the dimensions of the axis are distinct.
\<close>

theorem facetField_binding:
  "facetFields (dims fs) = butlast (dims fs)
   \<and> facetField nf fs = (if dims (butlast fs) = [] then nf else last (dims (butlast fs)))
   \<and> (fs = [] \<or> analyticType (last fs) = Dimension \<longrightarrow>
        facetField nf fs
          = (if facetFields (dims fs) = [] then nf else last (facetFields (dims fs))))
   \<and> (fs \<noteq> [] \<and> analyticType (last fs) = Measure \<longrightarrow>
        facetField nf fs = (if dims fs = [] then nf else last (dims fs)))
   \<and> (fs \<noteq> [] \<and> analyticType (last fs) = Measure \<and> dims fs \<noteq> [] \<and> distinct (dims fs) \<longrightarrow>
        facetField nf fs \<notin> set (facetFields (dims fs)))"
  using dims_butlast_dimension [of fs] dims_butlast_measure [of fs]
    last_notin_butlast [of "dims fs"]
  by (simp add: facetField_eq facetFields_def slice_butlast)

theorem facetField_binding_witness:
  "analyticType (last [region, city]) = Dimension
   \<and> facetField NULL_FIELD [region, city] = region
   \<and> analyticType (last [region, city, sales]) = Measure
   \<and> distinct (dims [region, city, sales])
   \<and> facetField NULL_FIELD [region, city, sales] = city
   \<and> facetField NULL_FIELD [region, city, sales] \<notin> set (facetFields (dims [region, city, sales]))
   \<and> facetField NULL_FIELD [] = NULL_FIELD"
  using facetField_binding [of "[region, city]" NULL_FIELD]
    facetField_binding [of "[region, city, sales]" NULL_FIELD]
    facetField_binding [of "[]" NULL_FIELD]
  by (simp add: facetFields_def dims_def slice_def region_def city_def sales_def)

section \<open>Facts about the compiler\<close>

lemma allFieldIds_covers:
  "set (allFieldIds p) =
     set (map fid (rows p)) \<union> set (map fid (columns p)) \<union> fid ` set_option (color p)
       \<union> fid ` set_option (opacity p) \<union> fid ` set_option (size' p)"
  by (cases "color p"; cases "opacity p"; cases "size' p") (auto simp: allFieldIds_def)

lemma interval_param_iff:
  "(\<lparr>name = ''grid'', select = IntervalSelect, bind = Some ''scales''\<rparr> \<in> set (specParams p))
     = interactiveScale p"
  by (simp add: specParams_def SELECTION_NAME_def Let_def)

lemma cellSpec_params:
  "cellSpec (commonSpec p ds) singleView ''params'' = Some (Params (specParams p))"
  by (simp add: cellSpec_def commonSpec_def Let_def)

lemma singleSpec_params:
  "singleSpec (commonSpec p ds) singleView ''params'' = Some (Params (specParams p))"
  by (simp add: singleSpec_def commonSpec_def Let_def)

text \<open>
  Claim C8.  The claim: the fields of the point selection hold the id of every
  field bound to a channel, shape, theta, radius and the details among them, and
  the interval selection is in the params exactly when \<^verbatim>\<open>interactiveScale\<close> is set.

  The second half holds (\<open>interval_param_iff\<close>, \<open>cellSpec_params\<close>).  The first does
  not: \<^verbatim>\<open>allFieldIds\<close> collects rows, columns, color, opacity and size only
  (\<open>allFieldIds_covers\<close>), while both calls of \<^verbatim>\<open>getSingleView\<close> also bind shape,
  theta, radius and the details.  With \<open>species\<close> on the shape channel and nothing
  else, \<open>species\<close> is bound to a channel and the point selection has no field.
\<close>

theorem allFieldIds_misses_shape:
  "fid species \<in> set (map fid (channelFields
       \<lparr>rows = [], columns = [], color = None, opacity = None, size' = None,
        shape = Some species, theta = None, radius = None, details = [],
        interactiveScale = False\<rparr>))
   \<and> specParams
       \<lparr>rows = [], columns = [], color = None, opacity = None, size' = None,
        shape = Some species, theta = None, radius = None, details = [],
        interactiveScale = False\<rparr>
     = [\<lparr>name = ''geom'', select = PointSelect [], bind = None\<rparr>]"
  by (simp add: channelFields_def specParams_def allFieldIds_def SELECTION_NAME_def species_def)

section \<open>Facts about the throttle\<close>

text \<open>The duration is a multiple of \<open>1/64\<close>.\<close>

lemma throttleDuration_dyadic: "\<exists>k::nat. throttleDuration n r c = of_nat k / 64"
  by (rule exI [of _ "n * r * c"]) (simp add: throttleDuration_def)

text \<open>
  Claim C7.  The shared channel is throttled with \<^verbatim>\<open>leading: false\<close> and
  \<^verbatim>\<open>trailing: true\<close>, at the interval
  \<open>dataSource.length / 64 * rowRepeatCount * colRepeatCount\<close>; when the product of
  the row count and the data length doubles and the column count stays, the
  interval doubles, exactly.
\<close>

theorem throttle_interval_doubles:
  "throttledParamStore n r c =
     (of_nat n / 64 * of_nat r * of_nat c, \<lparr>leading = False, trailing = True\<rparr>)
   \<and> (r' * n' = 2 * (r * n) \<longrightarrow> throttleDuration n' r' c = 2 * throttleDuration n r c)"
proof -
  have "throttleDuration n' r' c = 2 * throttleDuration n r c" if h: "r' * n' = 2 * (r * n)"
  proof -
    have "(of_nat (r' * n') :: rat) = of_nat (2 * (r * n))" by (simp only: h)
    then have "(of_nat r' :: rat) * of_nat n' = 2 * (of_nat r * of_nat n)" by simp
    then have "(of_nat n' :: rat) * of_nat r' = 2 * (of_nat n * of_nat r)"
      by (simp add: mult.commute)
    then show ?thesis by (simp add: throttleDuration_def)
  qed
  then show ?thesis by (simp add: throttledParamStore_def throttleDuration_def)
qed

theorem throttle_interval_doubles_witness:
  "(4::nat) * 150 = 2 * (2 * 150)
   \<and> throttleDuration 150 4 3 = 2 * throttleDuration 150 2 3
   \<and> throttleDuration 150 2 3 = 225 / 16"
  using throttle_interval_doubles [of 150 2 3 4 150]
  by (simp add: throttleDuration_def)

section \<open>Facts about the orchestrator\<close>

lemma run_Nil [simp]: "run [] s = s"
  by (simp add: run_def)

lemma run_Cons [simp]: "run (e # es) s = run es (step e s)"
  by (simp add: run_def)

lemma run_append: "run (es @ es') s = run es' (run es s)"
  by (simp add: run_def)

lemma upt_small: "[0..<3] = [0, 1, 2]" "[0..<2] = [0, 1]" "[0..<1] = [0]"
  by (simp_all add: upt_rec)

subsection \<open>The readiness channel and its subscribers\<close>

lemma subject_next_ready: "announces s (subject_next (ReadyOf k) s)"
  by (simp add: announces_def subject_next_def state_of_def readyCount_def Let_def)

lemma subject_next_unready: "quiet s (subject_next Unready s)"
  by (simp add: quiet_def subject_next_def state_of_def readyCount_def Let_def)

lemma announces_update:
  "announces s (subject_next (ReadyOf k) (s\<lparr>vegaRefs := v, cycles := c\<rparr>))"
  "announces s (subject_next (ReadyOf k) (s\<lparr>cycles := c\<rparr>))"
  "announces s (subject_next (ReadyOf k) (s\<lparr>cycles := c, vegaRefs := v\<rparr>))"
  by (simp_all add: announces_def subject_next_def state_of_def readyCount_def Let_def)

lemma quiet_update:
  "quiet s (s\<lparr>vegaRefs := v, cycles := c\<rparr>)"
  "quiet s (s\<lparr>cycles := c\<rparr>)"
  "quiet s (s\<lparr>cycles := c, vegaRefs := v\<rparr>)"
  "quiet s s"
  by (simp_all add: quiet_def readyCount_def)

lemma step_cases: "quiet s (step e s) \<or> announces s (step e s) \<or> subscribes s (step e s)"
proof (cases e)
  case (Effect r c ph)
  then show ?thesis
    by (simp add: useEffect_def Let_def announces_update quiet_update)
next
  case (EmbedFulfilled k idx)
  then show ?thesis
    by (simp add: embed_fulfilled_def Let_def announces_update quiet_update)
next
  case (EmbedRejected k idx)
  then show ?thesis
    by (simp add: embed_rejected_def Let_def quiet_update)
next
  case SetUnready
  then show ?thesis
    by (simp add: setUnready_def subject_next_unready)
next
  case Ready
  then show ?thesis
    by (simp add: ready_def subscribes_def readyCount_def Let_def)
qed

lemma numbered_initial: "numbered initial"
  by (simp add: numbered_def initial_def)

lemma numbered_step: "numbered s \<Longrightarrow> numbered (step e s)"
  using step_cases [of s e]
  by (auto simp: numbered_def quiet_def announces_def subscribes_def less_Suc_eq)

lemma numbered_run: "numbered s \<Longrightarrow> numbered (run es s)"
  by (induction es arbitrary: s) (simp_all add: numbered_step)

lemma readyCount_step: "readyCount s \<le> readyCount (step e s)"
  using step_cases [of s e] by (auto simp: quiet_def announces_def subscribes_def)

lemma readyCount_run: "readyCount s \<le> readyCount (run es s)"
proof (induction es arbitrary: s)
  case Nil
  show ?case by simp
next
  case (Cons e es)
  have "readyCount s \<le> readyCount (step e s)" by (rule readyCount_step)
  also have "\<dots> \<le> readyCount (run es (step e s))" by (rule Cons.IH)
  finally show ?case by simp
qed

lemma resolved_step: "set (resolved s) \<subseteq> set (resolved (step e s))"
  using step_cases [of s e] by (auto simp: quiet_def announces_def subscribes_def)

lemma resolved_run: "p \<in> set (resolved s) \<Longrightarrow> p \<in> set (resolved (run es s))"
proof (induction es arbitrary: s)
  case Nil
  then show ?case by simp
next
  case (Cons e es)
  then show ?case using resolved_step [of s e] by auto
qed

text \<open>
  A subscribed promise is resolved after a run exactly if \<^verbatim>\<open>ready$\<close> has sent true
  during the run.
\<close>

lemma subscriber_resolves:
  "numbered s \<Longrightarrow> p \<in> set (subscribers s) \<Longrightarrow>
     (p \<in> set (resolved (run es s))) = (readyCount s < readyCount (run es s))"
proof (induction es arbitrary: s)
  case Nil
  then show ?case by (simp add: numbered_def)
next
  case (Cons e es)
  let ?t = "step e s"
  have nt: "numbered ?t" using Cons.prems(1) by (rule numbered_step)
  consider (q) "quiet s ?t" | (a) "announces s ?t" | (r) "subscribes s ?t"
    using step_cases [of s e] by blast
  then show ?case
  proof cases
    case q
    then have "p \<in> set (subscribers ?t)" and "readyCount ?t = readyCount s"
      using Cons.prems(2) by (simp_all add: quiet_def)
    then show ?thesis using Cons.IH [OF nt] by simp
  next
    case a
    then have "p \<in> set (resolved ?t)" and rc: "readyCount ?t = Suc (readyCount s)"
      using Cons.prems(2) by (simp_all add: announces_def)
    then have "p \<in> set (resolved (run es ?t))" by (simp add: resolved_run)
    moreover have "readyCount s < readyCount (run es ?t)"
      using readyCount_run [of ?t es] rc by simp
    ultimately show ?thesis by simp
  next
    case r
    then have "p \<in> set (subscribers ?t)" and "readyCount ?t = readyCount s"
      using Cons.prems(2) by (simp_all add: subscribes_def)
    then show ?thesis using Cons.IH [OF nt] by simp
  qed
qed

lemma ready_subscribes: "calls s \<in> set (subscribers (ready s))"
  by (simp add: ready_def Let_def)

lemma readyCount_ready: "readyCount (ready s) = readyCount s"
  by (simp add: ready_def Let_def readyCount_def)

text \<open>
  Claim C3, as stated: a call of \<^verbatim>\<open>ready()\<close> made after a ready event, with no
  \<^verbatim>\<open>setUnready\<close> and no new embed cycle in between, returns a promise that resolves
  without a further ready event.  The component is mounted with one view, its
  embed resolves and \<^verbatim>\<open>ready$\<close> sends true; \<^verbatim>\<open>ready()\<close> is called next.  The
  promise, number 0, is subscribed and not resolved.
\<close>

theorem ready_after_readiness_counterexample:
  "emitted (run [Effect 1 1 [], Effect 1 1 [True], EmbedFulfilled 1 0, Ready] initial)
     = [ReadyOf 1]
   \<and> subscribers (run [Effect 1 1 [], Effect 1 1 [True], EmbedFulfilled 1 0, Ready] initial)
     = [0]
   \<and> resolved (run [Effect 1 1 [], Effect 1 1 [True], EmbedFulfilled 1 0, Ready] initial)
     = []"
  by (simp add: initial_def useEffect_def embed_fulfilled_def is_pending_def node_def ready_def
        subject_next_def state_of_def Let_def)

text \<open>
  Claim C3, amended.  \<^verbatim>\<open>ready()\<close> returns a promise that resolves when the
  orchestrator's aggregate-ready transition next occurs.  Readiness reached before
  the call does not resolve it: after any history \<open>es\<close>, the promise of a call is
  resolved after the further events \<open>es'\<close> exactly if \<^verbatim>\<open>ready$\<close> has sent true during
  \<open>es'\<close>.
\<close>

theorem ready_resolves_on_next_ready_event:
  "(calls (run es initial) \<in> set (resolved (run es' (ready (run es initial)))))
     = (readyCount (run es initial) < readyCount (run es' (ready (run es initial))))"
proof -
  let ?s = "run es initial"
  have "numbered ?s" by (simp add: numbered_run numbered_initial)
  then have "numbered (ready ?s)" using numbered_step [of ?s Ready] by simp
  from subscriber_resolves [OF this ready_subscribes, of es']
  show ?thesis by (simp add: readyCount_ready)
qed

subsection \<open>A cycle sends true exactly if it is complete\<close>

lemma emitted_subject_next [simp]: "emitted (subject_next e s) = emitted s @ [e]"
  by (simp add: subject_next_def Let_def)

lemma cycles_subject_next [simp]: "cycles (subject_next e s) = cycles s"
  by (simp add: subject_next_def Let_def)

lemma vegaRefs_subject_next [simp]: "vegaRefs (subject_next e s) = vegaRefs s"
  by (simp add: subject_next_def Let_def)

lemma announced_initial: "announced initial"
  by (simp add: announced_def initial_def)

lemma announced_useEffect: "announced s \<Longrightarrow> announced (useEffect r c ph s)"
  unfolding announced_def useEffect_def Let_def
  by (auto simp: nth_append complete_def less_Suc_eq)

lemma pending_not_fulfilled:
  "idx < length es \<Longrightarrow> es ! idx = Pending \<Longrightarrow> \<not> all_fulfilled es"
  by (auto simp: all_fulfilled_def list_all_length)

lemma pending_not_announced:
  assumes a: "announced s" and p: "is_pending s k idx"
  shows "ReadyOf k \<notin> set (emitted s)"
proof -
  from p have k: "k < length (cycles s)" and i: "idx < length (embeds (cycles s ! k))"
    and e: "embeds (cycles s ! k) ! idx = Pending"
    by (simp_all add: is_pending_def)
  show ?thesis
  proof (cases "single (cycles s ! k)")
    case True
    with a k have "length (embeds (cycles s ! k)) = 1" by (simp add: announced_def)
    with i e have "embeds (cycles s ! k) = [Pending]"
      by (cases "embeds (cycles s ! k)") auto
    with a k True show ?thesis by (simp add: announced_def complete_def)
  next
    case False
    with a k pending_not_fulfilled [OF i e] show ?thesis
      by (simp add: announced_def complete_def)
  qed
qed

lemma single_pending:
  assumes a: "announced s" and p: "is_pending s k idx" and s: "single (cycles s ! k)"
  shows "embeds (cycles s ! k) = [Pending] \<and> idx = 0"
proof -
  from p have k: "k < length (cycles s)" and i: "idx < length (embeds (cycles s ! k))"
    and e: "embeds (cycles s ! k) ! idx = Pending"
    by (simp_all add: is_pending_def)
  from a k s have "length (embeds (cycles s ! k)) = 1" by (simp add: announced_def)
  with i e show ?thesis by (cases "embeds (cycles s ! k)") auto
qed

lemma announced_embed_fulfilled: "announced s \<Longrightarrow> announced (embed_fulfilled k idx s)"
proof (cases "is_pending s k idx")
  case False
  assume "announced s"
  with False show ?thesis by (simp add: embed_fulfilled_def)
next
  case True
  assume a: "announced s"
  from True have k: "k < length (cycles s)" by (simp add: is_pending_def)
  note notyet = pending_not_announced [OF a True]
  show ?thesis
  proof (cases "single (cycles s ! k)")
    case True
    from single_pending [OF a \<open>is_pending s k idx\<close> True]
    have e: "embeds (cycles s ! k) = [Pending]" and i0: "idx = 0" by simp_all
    show ?thesis
      using a k True e i0 \<open>is_pending s k idx\<close>
      unfolding announced_def embed_fulfilled_def Let_def
      by (auto simp: nth_list_update complete_def)
  next
    case False
    show ?thesis
      using a k False notyet \<open>is_pending s k idx\<close>
      unfolding announced_def embed_fulfilled_def Let_def
      by (auto simp: nth_list_update complete_def)
  qed
qed

lemma announced_embed_rejected: "announced s \<Longrightarrow> announced (embed_rejected k idx s)"
proof (cases "is_pending s k idx")
  case False
  assume "announced s"
  with False show ?thesis by (simp add: embed_rejected_def)
next
  case True
  assume a: "announced s"
  from True have k: "k < length (cycles s)" and i: "idx < length (embeds (cycles s ! k))"
    by (simp_all add: is_pending_def)
  have rej: "\<not> all_fulfilled ((embeds (cycles s ! k))[idx := Rejected])"
    using i by (auto simp: all_fulfilled_def list_all_length nth_list_update intro!: exI [of _ idx])
  note notyet = pending_not_announced [OF a True]
  show ?thesis
  proof (cases "single (cycles s ! k)")
    case True
    from single_pending [OF a \<open>is_pending s k idx\<close> True]
    have e: "embeds (cycles s ! k) = [Pending]" and i0: "idx = 0" by simp_all
    show ?thesis
      using a k True e i0 notyet \<open>is_pending s k idx\<close>
      unfolding announced_def embed_rejected_def Let_def
      by (auto simp: nth_list_update complete_def)
  next
    case False
    show ?thesis
      using a k False notyet rej \<open>is_pending s k idx\<close>
      unfolding announced_def embed_rejected_def Let_def
      by (auto simp: nth_list_update complete_def)
  qed
qed

lemma announced_step: "announced s \<Longrightarrow> announced (step e s)"
proof (cases e)
  case (Effect r c ph)
  assume "announced s"
  with Effect show ?thesis by (simp add: announced_useEffect)
next
  case (EmbedFulfilled k idx)
  assume "announced s"
  with EmbedFulfilled show ?thesis by (simp add: announced_embed_fulfilled)
next
  case (EmbedRejected k idx)
  assume "announced s"
  with EmbedRejected show ?thesis by (simp add: announced_embed_rejected)
next
  case SetUnready
  assume "announced s"
  with SetUnready show ?thesis by (simp add: announced_def setUnready_def)
next
  case Ready
  assume "announced s"
  with Ready show ?thesis by (simp add: announced_def ready_def Let_def)
qed

lemma announced_run: "announced s \<Longrightarrow> announced (run es s)"
  by (induction es arbitrary: s) (simp_all add: announced_step)

subsection \<open>A rejected embed stays rejected\<close>

lemma rejected_update:
  "Rejected \<in> set es \<Longrightarrow> idx < length es \<Longrightarrow> es ! idx = Pending \<Longrightarrow>
     Rejected \<in> set (es[idx := x])"
proof -
  assume r: "Rejected \<in> set es" and i: "idx < length es" and p: "es ! idx = Pending"
  from r obtain j where j: "j < length es" "es ! j = Rejected" by (auto simp: in_set_conv_nth)
  with p have "j \<noteq> idx" by auto
  with j have "(es[idx := x]) ! j = Rejected" "j < length (es[idx := x])" by simp_all
  then show ?thesis by (metis nth_mem)
qed

lemma rejected_step:
  assumes "k < length (cycles s)" and "Rejected \<in> set (embeds (cycles s ! k))"
  shows "k < length (cycles (step e s)) \<and> Rejected \<in> set (embeds (cycles (step e s) ! k))"
proof (cases e)
  case (Effect r c ph)
  with assms show ?thesis by (simp add: useEffect_def Let_def nth_append)
next
  case (EmbedFulfilled k' idx)
  show ?thesis
  proof (cases "is_pending s k' idx")
    case False
    with assms EmbedFulfilled show ?thesis by (simp add: embed_fulfilled_def)
  next
    case True
    then have "k' < length (cycles s)" "idx < length (embeds (cycles s ! k'))"
      "embeds (cycles s ! k') ! idx = Pending"
      by (simp_all add: is_pending_def)
    with assms True EmbedFulfilled show ?thesis
      by (cases "k = k'") (simp_all add: embed_fulfilled_def Let_def rejected_update)
  qed
next
  case (EmbedRejected k' idx)
  show ?thesis
  proof (cases "is_pending s k' idx")
    case False
    with assms EmbedRejected show ?thesis by (simp add: embed_rejected_def)
  next
    case True
    then have "k' < length (cycles s)" "idx < length (embeds (cycles s ! k'))"
      "embeds (cycles s ! k') ! idx = Pending"
      by (simp_all add: is_pending_def)
    with assms True EmbedRejected show ?thesis
      by (cases "k = k'") (simp_all add: embed_rejected_def Let_def rejected_update)
  qed
next
  case SetUnready
  with assms show ?thesis by (simp add: setUnready_def)
next
  case Ready
  with assms show ?thesis by (simp add: ready_def Let_def)
qed

lemma rejected_run:
  "k < length (cycles s) \<Longrightarrow> Rejected \<in> set (embeds (cycles s ! k)) \<Longrightarrow>
     k < length (cycles (run es s)) \<and> Rejected \<in> set (embeds (cycles (run es s) ! k))"
proof (induction es arbitrary: s)
  case Nil
  then show ?case by simp
next
  case (Cons e es)
  from rejected_step [OF Cons.prems, of e] Cons.IH [of "step e s"] show ?case by simp
qed

lemma complete_settled:
  "complete cy \<Longrightarrow> Pending \<notin> set (embeds cy) \<and> Rejected \<notin> set (embeds cy)"
  by (auto simp: complete_def all_fulfilled_def list_all_iff split: if_splits)

lemma filter_update_count:
  "k < length xs \<Longrightarrow> \<not> P (xs ! k) \<Longrightarrow>
     length (filter P (xs[k := y])) = length (filter P xs) + (if P y then 1 else 0)"
proof (induction xs arbitrary: k)
  case Nil
  then show ?case by simp
next
  case (Cons x xs)
  then show ?case by (cases k) simp_all
qed

lemma readyCount_subject_next:
  "readyCount (subject_next e s) = readyCount s + (if state_of e then 1 else 0)"
  by (simp add: readyCount_def)

lemma readyCount_updates [simp]:
  "readyCount (s\<lparr>cycles := c\<rparr>) = readyCount s"
  "readyCount (s\<lparr>vegaRefs := v\<rparr>) = readyCount s"
  by (simp_all add: readyCount_def)

lemma pending_not_complete:
  assumes a: "announced s" and p: "is_pending s k idx"
  shows "\<not> complete (cycles s ! k)"
proof -
  from p have k: "k < length (cycles s)" by (simp add: is_pending_def)
  from pending_not_announced [OF a p] a k show ?thesis by (simp add: announced_def)
qed

lemma counted_useEffect:
  "readyCount s = length (filter complete (cycles s)) \<Longrightarrow>
     readyCount (useEffect r c ph s) = length (filter complete (cycles (useEffect r c ph s)))"
  by (simp add: useEffect_def Let_def complete_def readyCount_subject_next state_of_def)

lemma counted_embed_fulfilled:
  assumes a: "announced s" and n: "readyCount s = length (filter complete (cycles s))"
  shows "readyCount (embed_fulfilled k idx s)
           = length (filter complete (cycles (embed_fulfilled k idx s)))"
proof (cases "is_pending s k idx")
  case False
  with n show ?thesis by (simp add: embed_fulfilled_def)
next
  case True
  then have k: "k < length (cycles s)" by (simp add: is_pending_def)
  note nc = pending_not_complete [OF a True]
  show ?thesis
  proof (cases "single (cycles s ! k)")
    case True
    from single_pending [OF a \<open>is_pending s k idx\<close> True]
    have e: "embeds (cycles s ! k) = [Pending]" and i0: "idx = 0" by simp_all
    from True e i0 \<open>is_pending s k idx\<close> n show ?thesis
      by (simp add: embed_fulfilled_def Let_def readyCount_subject_next state_of_def
            filter_update_count [of k "cycles s" complete, OF k nc] complete_def)
  next
    case False
    with \<open>is_pending s k idx\<close> n show ?thesis
      by (simp add: embed_fulfilled_def Let_def readyCount_subject_next state_of_def
            filter_update_count [of k "cycles s" complete, OF k nc] complete_def)
  qed
qed

lemma counted_embed_rejected:
  assumes a: "announced s" and n: "readyCount s = length (filter complete (cycles s))"
  shows "readyCount (embed_rejected k idx s)
           = length (filter complete (cycles (embed_rejected k idx s)))"
proof (cases "is_pending s k idx")
  case False
  with n show ?thesis by (simp add: embed_rejected_def)
next
  case True
  then have k: "k < length (cycles s)" and i: "idx < length (embeds (cycles s ! k))"
    by (simp_all add: is_pending_def)
  note nc = pending_not_complete [OF a True]
  have "Rejected \<in> set ((embeds (cycles s ! k))[idx := Rejected])"
    using i by (simp add: set_update_memI)
  then have "\<not> complete ((cycles s ! k)\<lparr>embeds := (embeds (cycles s ! k))[idx := Rejected]\<rparr>)"
    using complete_settled by fastforce
  with True n show ?thesis
    by (simp add: embed_rejected_def Let_def filter_update_count [of k "cycles s" complete, OF k nc])
qed

lemma counted_step:
  assumes a: "announced s" and n: "readyCount s = length (filter complete (cycles s))"
  shows "readyCount (step e s) = length (filter complete (cycles (step e s)))"
proof (cases e)
  case (Effect r c ph)
  with n show ?thesis by (simp add: counted_useEffect)
next
  case (EmbedFulfilled k idx)
  with a n show ?thesis by (simp add: counted_embed_fulfilled)
next
  case (EmbedRejected k idx)
  with a n show ?thesis by (simp add: counted_embed_rejected)
next
  case SetUnready
  with n show ?thesis by (simp add: setUnready_def readyCount_subject_next state_of_def)
next
  case Ready
  with n show ?thesis by (simp add: ready_def Let_def readyCount_def)
qed

lemma counted_run:
  "announced s \<Longrightarrow> readyCount s = length (filter complete (cycles s)) \<Longrightarrow>
     readyCount (run es s) = length (filter complete (cycles (run es s)))"
proof (induction es arbitrary: s)
  case Nil
  then show ?case by simp
next
  case (Cons e es)
  from Cons.prems have "announced (step e s)" by (simp add: announced_step)
  moreover from Cons.prems have "readyCount (step e s) = length (filter complete (cycles (step e s)))"
    by (rule counted_step)
  ultimately show ?case using Cons.IH by simp
qed

lemma counted_initial: "readyCount initial = length (filter complete (cycles initial))"
  by (simp add: readyCount_def initial_def)

lemma complete_iff:
  "complete cy = (if single cy then embeds cy = [Fulfilled]
                  else Pending \<notin> set (embeds cy) \<and> Rejected \<notin> set (embeds cy))"
proof -
  have "all_fulfilled es = (Pending \<notin> set es \<and> Rejected \<notin> set es)" for es
  proof (induction es)
    case Nil
    show ?case by (simp add: all_fulfilled_def)
  next
    case (Cons e es)
    then show ?case by (cases e) (simp_all add: all_fulfilled_def)
  qed
  then show ?thesis by (simp add: complete_def)
qed

text \<open>
  Claim C2, as stated: in an embed cycle with \<open>n\<close> grid cells the readiness channel
  sends true only after all \<open>n\<close> embeds of that cycle have resolved.  The channel
  is one subject for all cycles, and a grid cycle waits only for the embeds it has
  issued.  A grid of two cells is mounted (cycle 0, no placeholder yet), embedded
  (cycle 1) and, after a change of the data, embedded again (cycle 2); \<^verbatim>\<open>ready()\<close>
  is called and then the two embeds of the superseded cycle 1 resolve: the channel
  has sent true twice and the promise of \<^verbatim>\<open>ready()\<close> is resolved, while both embeds
  of cycle 2 are pending.  At the mount of a grid of three cells no embed is issued
  and the channel sends true at once.  With a placeholder for the first of two
  cells only, the channel sends true when that one embed resolves.
\<close>

theorem ready_while_embeds_pending_counterexample:
  "embeds (cycles (run [Effect 2 1 [], Effect 2 1 [True, True], Effect 2 1 [True, True], Ready,
       EmbedFulfilled 1 0, EmbedFulfilled 1 1] initial) ! 2) = [Pending, Pending]
   \<and> map state_of (emitted (run [Effect 2 1 [], Effect 2 1 [True, True], Effect 2 1 [True, True],
       Ready, EmbedFulfilled 1 0, EmbedFulfilled 1 1] initial)) = [True, True]
   \<and> resolved (run [Effect 2 1 [], Effect 2 1 [True, True], Effect 2 1 [True, True], Ready,
       EmbedFulfilled 1 0, EmbedFulfilled 1 1] initial) = [0]
   \<and> embeds (cycles (run [Effect 3 1 []] initial) ! 0) = [NotIssued, NotIssued, NotIssued]
   \<and> map state_of (emitted (run [Effect 3 1 []] initial)) = [True]
   \<and> embeds (cycles (run [Effect 2 1 [], Effect 2 1 [True], EmbedFulfilled 1 0] initial) ! 1)
       = [Fulfilled, NotIssued]
   \<and> map state_of (emitted (run [Effect 2 1 [], Effect 2 1 [True], EmbedFulfilled 1 0] initial))
       = [True, True]"
  by (simp add: initial_def useEffect_def embed_fulfilled_def is_pending_def issue_def node_def
        all_fulfilled_def subject_next_def state_of_def ready_def Let_def upt_small)

text \<open>
  Claim C2, amended.  After every history, whatever the order of its events: the
  readiness channel has sent true as many times as there are complete cycles,
  whichever of them is the current one.  A cycle \<open>k\<close> has sent true exactly if it
  is complete, which for a single view means that its one embed is fulfilled and
  for a grid that none of its embeds is pending or rejected (a cell without a node
  issues no embed); if it has sent true, none of its embeds is pending or
  rejected; and if one of its embeds has been rejected, it has not sent true after
  any further events \<open>es'\<close> either.
\<close>

theorem ready_only_after_every_embed:
  "readyCount (run es initial) = length (filter complete (cycles (run es initial)))
   \<and> (k < length (cycles (run es initial)) \<longrightarrow>
        (ReadyOf k \<in> set (emitted (run es initial))) = complete (cycles (run es initial) ! k)
        \<and> complete (cycles (run es initial) ! k)
            = (if single (cycles (run es initial) ! k)
               then embeds (cycles (run es initial) ! k) = [Fulfilled]
               else Pending \<notin> set (embeds (cycles (run es initial) ! k))
                    \<and> Rejected \<notin> set (embeds (cycles (run es initial) ! k)))
        \<and> (ReadyOf k \<in> set (emitted (run es initial)) \<longrightarrow>
             Pending \<notin> set (embeds (cycles (run es initial) ! k))
             \<and> Rejected \<notin> set (embeds (cycles (run es initial) ! k)))
        \<and> (Rejected \<in> set (embeds (cycles (run es initial) ! k)) \<longrightarrow>
             ReadyOf k \<notin> set (emitted (run (es @ es') initial))))"
proof -
  let ?s = "run es initial"
  have a: "announced ?s" by (simp add: announced_run announced_initial)
  have count: "readyCount ?s = length (filter complete (cycles ?s))"
    by (simp add: counted_run announced_initial counted_initial)
  have rest: "(ReadyOf k \<in> set (emitted ?s)) = complete (cycles ?s ! k)
        \<and> (ReadyOf k \<in> set (emitted ?s) \<longrightarrow>
             Pending \<notin> set (embeds (cycles ?s ! k)) \<and> Rejected \<notin> set (embeds (cycles ?s ! k)))
        \<and> (Rejected \<in> set (embeds (cycles ?s ! k)) \<longrightarrow>
             ReadyOf k \<notin> set (emitted (run (es @ es') initial)))"
    if k: "k < length (cycles ?s)"
  proof -
    from a k have iff: "(ReadyOf k \<in> set (emitted ?s)) = complete (cycles ?s ! k)"
      by (simp add: announced_def)
    have later: "ReadyOf k \<notin> set (emitted (run (es @ es') initial))"
      if r: "Rejected \<in> set (embeds (cycles ?s ! k))"
    proof -
      let ?t = "run es' ?s"
      from rejected_run [OF k r, of es']
      have kt: "k < length (cycles ?t)" and rt: "Rejected \<in> set (embeds (cycles ?t ! k))"
        by simp_all
      have "announced ?t" using a by (rule announced_run)
      with kt have "(ReadyOf k \<in> set (emitted ?t)) = complete (cycles ?t ! k)"
        by (simp add: announced_def)
      with rt complete_settled [of "cycles ?t ! k"] show ?thesis
        by (auto simp: run_append)
    qed
    from iff later complete_settled [of "cycles ?s ! k"] show ?thesis by blast
  qed
  from count rest complete_iff [of "cycles ?s ! k"] show ?thesis by blast
qed

text \<open>
  Three cells, mounted and then embedded in cycle 1.  With cell 1 and cell 0
  resolved and cell 2 pending the cycle has not sent true; once cell 2 resolves it
  has, and the channel has sent true twice (at the mount and now).  If cell 0 is
  rejected, no later resolution makes the cycle send true.
\<close>

theorem ready_only_after_every_embed_witness:
  "ReadyOf 1 \<notin> set (emitted (run [Effect 3 1 [], Effect 3 1 [True, True, True],
       EmbedFulfilled 1 1, EmbedFulfilled 1 0] initial))
   \<and> ReadyOf 1 \<in> set (emitted (run [Effect 3 1 [], Effect 3 1 [True, True, True],
       EmbedFulfilled 1 1, EmbedFulfilled 1 0, EmbedFulfilled 1 2] initial))
   \<and> readyCount (run [Effect 3 1 [], Effect 3 1 [True, True, True],
       EmbedFulfilled 1 1, EmbedFulfilled 1 0, EmbedFulfilled 1 2] initial) = 2
   \<and> ReadyOf 1 \<notin> set (emitted (run ([Effect 3 1 [], Effect 3 1 [True, True, True],
       EmbedFulfilled 1 1, EmbedRejected 1 0] @ [EmbedFulfilled 1 2, EmbedFulfilled 1 0]) initial))"
proof -
  let ?a = "[Effect 3 1 [], Effect 3 1 [True, True, True], EmbedFulfilled 1 1, EmbedFulfilled 1 0]"
  let ?b = "[Effect 3 1 [], Effect 3 1 [True, True, True], EmbedFulfilled 1 1, EmbedFulfilled 1 0,
             EmbedFulfilled 1 2]"
  let ?c = "[Effect 3 1 [], Effect 3 1 [True, True, True], EmbedFulfilled 1 1, EmbedRejected 1 0]"
  have ca: "cycles (run ?a initial) =
      [\<lparr>single = False, embeds = [NotIssued, NotIssued, NotIssued]\<rparr>,
       \<lparr>single = False, embeds = [Fulfilled, Fulfilled, Pending]\<rparr>]"
    by (simp add: initial_def useEffect_def embed_fulfilled_def is_pending_def issue_def node_def
          all_fulfilled_def subject_next_def state_of_def Let_def upt_small)
  have cb: "cycles (run ?b initial) =
      [\<lparr>single = False, embeds = [NotIssued, NotIssued, NotIssued]\<rparr>,
       \<lparr>single = False, embeds = [Fulfilled, Fulfilled, Fulfilled]\<rparr>]"
    by (simp add: initial_def useEffect_def embed_fulfilled_def is_pending_def issue_def node_def
          all_fulfilled_def subject_next_def state_of_def Let_def upt_small)
  have cc: "cycles (run ?c initial) =
      [\<lparr>single = False, embeds = [NotIssued, NotIssued, NotIssued]\<rparr>,
       \<lparr>single = False, embeds = [Rejected, Fulfilled, Pending]\<rparr>]"
    by (simp add: initial_def useEffect_def embed_fulfilled_def embed_rejected_def is_pending_def
          issue_def node_def all_fulfilled_def subject_next_def state_of_def Let_def upt_small)
  from ready_only_after_every_embed [of ?a 1] ca
  have 1: "ReadyOf 1 \<notin> set (emitted (run ?a initial))"
    by (simp add: complete_def all_fulfilled_def)
  from ready_only_after_every_embed [of ?b 1] cb
  have 2: "ReadyOf 1 \<in> set (emitted (run ?b initial))"
    and 4: "readyCount (run ?b initial) = 2"
    by (simp_all add: complete_def all_fulfilled_def)
  from ready_only_after_every_embed [of ?c 1 "[EmbedFulfilled 1 2, EmbedFulfilled 1 0]"] cc
  have 3: "ReadyOf 1 \<notin> set (emitted (run (?c @ [EmbedFulfilled 1 2, EmbedFulfilled 1 0]) initial))"
    by (simp add: complete_def all_fulfilled_def)
  from 1 2 3 4 show ?thesis by blast
qed

subsection \<open>Export\<close>

lemma getSVGData_initial: "getSVGData toSVG initial = Inr []"
  by (simp add: getSVGData_def initial_def)

lemma getCanvasData_initial: "getCanvasData toCanvas toDataURL initial = Inr []"
  by (simp add: getCanvasData_def initial_def)

lemma getSVGData_after_effect: "getSVGData toSVG (useEffect r c ph s) = Inr []"
  by (simp add: getSVGData_def useEffect_def Let_def)

text \<open>
  Claim C1.  The claim: once readiness has been reached, \<^verbatim>\<open>getSVGData\<close> and
  \<^verbatim>\<open>getCanvasData\<close> return one entry per grid cell, in the order of the cells; with
  one view, a list of length 1.  Before any embed has completed they return the
  empty list (\<open>getSVGData_initial\<close>, \<open>getSVGData_after_effect\<close>).

  The first part fails.  The callback of the single view (lines 208 to 221) sends
  true on \<^verbatim>\<open>ready$\<close> and never pushes \<^verbatim>\<open>res.view\<close> to \<^verbatim>\<open>vegaRefs.current\<close>, which the
  callback of a grid cell does (line 332): the component is mounted with one view,
  the embed of cycle 1 resolves, readiness is reached, and \<^verbatim>\<open>getSVGData\<close> returns the
  empty list.  In a grid the handles are pushed in the order in which the embeds
  resolve: with two cells of which the second resolves first, the list holds the
  view of cell 1 before the view of cell 0.
\<close>

theorem single_view_exports_nothing:
  "emitted (run [Effect 1 1 [], Effect 1 1 [True], EmbedFulfilled 1 0] initial) = [ReadyOf 1]
   \<and> getSVGData (\<lambda>v. Inr ''<svg/>'' :: unit + string)
        (run [Effect 1 1 [], Effect 1 1 [True], EmbedFulfilled 1 0] initial) = Inr []
   \<and> emitted (run [Effect 2 1 [], Effect 2 1 [True, True], EmbedFulfilled 1 1,
        EmbedFulfilled 1 0] initial) = [ReadyOf 0, ReadyOf 1]
   \<and> vegaRefs (run [Effect 2 1 [], Effect 2 1 [True, True], EmbedFulfilled 1 1,
        EmbedFulfilled 1 0] initial) = [(1, 1), (1, 0)]"
  by (simp add: initial_def useEffect_def embed_fulfilled_def is_pending_def issue_def node_def
        all_fulfilled_def subject_next_def state_of_def Let_def upt_small getSVGData_def)

subsection \<open>Download\<close>

lemma promise_all_length: "promise_all ps = Inr xs \<Longrightarrow> length xs = length ps"
  by (induction ps arbitrary: xs) (auto split: sum.splits)

text \<open>The loops leave \<^verbatim>\<open>files\<close> as it is and click once for each index from \<open>i\<close> on.\<close>

lemma downloadSVG_loop_eq:
  "downloadSVG_loop filename dat i files clicks =
     (files, clicks @ map (\<lambda>j. \<lparr>download = filename
                 @ (if 1 < length dat then ''_'' @ string_of_nat (j + 1) else []) @ ''.svg'',
               href = ObjectURL (dat ! j)\<rparr>) [i..<length dat])"
proof (induction filename dat i files clicks rule: downloadSVG_loop.induct)
  case (1 filename dat i files clicks)
  show ?case
  proof (cases "i < length dat")
    case True
    from "1.IH" [OF True refl refl refl] True show ?thesis
      by (subst downloadSVG_loop.simps) (simp add: Let_def upt_conv_Cons)
  next
    case False
    then show ?thesis by (subst downloadSVG_loop.simps) simp
  qed
qed

lemma downloadPNG_loop_eq:
  "downloadPNG_loop filename dat i files clicks =
     (files, clicks @ map (\<lambda>j. \<lparr>download = filename
                 @ (if 1 < length dat then ''_'' @ string_of_nat (j + 1) else []) @ ''.png'',
               href = Url (replace_image (dat ! j))\<rparr>) [i..<length dat])"
proof (induction filename dat i files clicks rule: downloadPNG_loop.induct)
  case (1 filename dat i files clicks)
  show ?case
  proof (cases "i < length dat")
    case True
    from "1.IH" [OF True refl refl] True show ?thesis
      by (subst downloadPNG_loop.simps) (simp add: Let_def upt_conv_Cons)
  next
    case False
    then show ?thesis by (subst downloadPNG_loop.simps) simp
  qed
qed

text \<open>
  Claim C10.  In every state of the component, with any number of recorded view
  handles, \<^verbatim>\<open>downloadSVG\<close> and \<^verbatim>\<open>downloadPNG\<close> resolve to the empty list whenever
  the exports of the views resolve (they reject with the rejection of an export
  otherwise); they click once per recorded handle, and the download name carries
  the suffix \<open>_i\<close>, counted from 1, when there is more than one handle.
\<close>

theorem downloads_resolve_to_no_files:
  "downloadSVG toSVG filename s =
     (case promise_all (map toSVG (vegaRefs s)) of
        Inl e \<Rightarrow> Inl e
      | Inr dat \<Rightarrow>
          Inr ([], map (\<lambda>i. \<lparr>download = filename
                   @ (if 1 < length (vegaRefs s) then ''_'' @ string_of_nat (i + 1) else [])
                   @ ''.svg'',
                 href = ObjectURL (dat ! i)\<rparr>) [0..<length (vegaRefs s)]))
   \<and> downloadPNG toCanvas toDataURL filename s =
     (case promise_all (map (toCanvas (Some 2)) (vegaRefs s)) of
        Inl e \<Rightarrow> Inl e
      | Inr canvases \<Rightarrow>
          Inr ([], map (\<lambda>i. \<lparr>download = filename
                   @ (if 1 < length (vegaRefs s) then ''_'' @ string_of_nat (i + 1) else [])
                   @ ''.png'',
                 href = Url (replace_image (toDataURL (canvases ! i) ''image/png'' (Some 1)))\<rparr>)
               [0..<length (vegaRefs s)]))"
proof
  show "downloadSVG toSVG filename s =
     (case promise_all (map toSVG (vegaRefs s)) of
        Inl e \<Rightarrow> Inl e
      | Inr dat \<Rightarrow>
          Inr ([], map (\<lambda>i. \<lparr>download = filename
                   @ (if 1 < length (vegaRefs s) then ''_'' @ string_of_nat (i + 1) else [])
                   @ ''.svg'',
                 href = ObjectURL (dat ! i)\<rparr>) [0..<length (vegaRefs s)]))"
    by (auto simp: downloadSVG_def downloadSVG_loop_eq split: sum.splits
          dest!: promise_all_length)
next
  show "downloadPNG toCanvas toDataURL filename s =
     (case promise_all (map (toCanvas (Some 2)) (vegaRefs s)) of
        Inl e \<Rightarrow> Inl e
      | Inr canvases \<Rightarrow>
          Inr ([], map (\<lambda>i. \<lparr>download = filename
                   @ (if 1 < length (vegaRefs s) then ''_'' @ string_of_nat (i + 1) else [])
                   @ ''.png'',
                 href = Url (replace_image (toDataURL (canvases ! i) ''image/png'' (Some 1)))\<rparr>)
               [0..<length (vegaRefs s)]))"
    by (auto simp: downloadPNG_def downloadPNG_loop_eq split: sum.splits
          dest!: promise_all_length)
qed

lemma digit_chars: "char_of (49::nat) = CHR ''1''" "char_of (50::nat) = CHR ''2''"
  by code_simp+

text \<open>Two recorded views: two clicks, named with the suffixes, and no file returned.\<close>

lemma downloadSVG_two_views:
  "downloadSVG (\<lambda>v. Inr (if snd v = 0 then ''<a/>'' else ''<b/>'') :: unit + string) ''chart''
       (initial\<lparr>vegaRefs := [(1, 0), (1, 1)]\<rparr>)
     = Inr ([], [\<lparr>download = ''chart_1.svg'', href = ObjectURL ''<a/>''\<rparr>,
                 \<lparr>download = ''chart_2.svg'', href = ObjectURL ''<b/>''\<rparr>])"
  by (simp add: downloadSVG_def downloadSVG_loop_eq upt_small string_of_nat.simps digit_chars)

section \<open>Facts about the renderer\<close>

lemma dataEffect_eq:
  "dataEffect svc st mounted s =
     (case pipeline svc st of
        Inl err \<Rightarrow>
          (s\<lparr>unready_sent := unready_sent s + (if mounted then 1 else 0),
             waiting := False, console_error := console_error s @ [err]\<rparr>, Inr ())
      | Inr dat \<Rightarrow>
          (s\<lparr>unready_sent := unready_sent s + (if mounted then 1 else 0),
             waiting := False, viewData := dat,
             encodings := draggableFieldState st, viewConfig := visualConfig st\<rparr>, Inr ()))"
  by (simp add: dataEffect_def pipeline_def then_do_def catch_do_def Let_def split: sum.splits)

text \<open>
  Claim C9.  If the pipeline of filter, transform and view query rejects with
  \<open>err\<close>, then after the effect the view data, the encodings and the view
  configuration are what they were, the waiting flag is cleared, \<open>err\<close> has been
  logged, and the promise that ends the chain is fulfilled: nothing is thrown to
  the host.
\<close>

theorem pipeline_rejection_keeps_view:
  "pipeline svc st = Inl err \<Longrightarrow>
     viewData (fst (dataEffect svc st mounted s)) = viewData s
     \<and> encodings (fst (dataEffect svc st mounted s)) = encodings s
     \<and> viewConfig (fst (dataEffect svc st mounted s)) = viewConfig s
     \<and> waiting (fst (dataEffect svc st mounted s)) = False
     \<and> console_error (fst (dataEffect svc st mounted s)) = console_error s @ [err]
     \<and> snd (dataEffect svc st mounted s) = Inr ()"
  by (simp add: dataEffect_eq)

theorem pipeline_rejection_keeps_view_witness:
  "pipeline failing changed = Inl ''transform failed''
   \<and> viewData (fst (dataEffect failing changed True shown)) = [1, 2, 3]
   \<and> encodings (fst (dataEffect failing changed True shown)) = ''old''
   \<and> viewConfig (fst (dataEffect failing changed True shown)) = \<lparr>defaultAggregated = True\<rparr>
   \<and> waiting (fst (dataEffect failing changed True shown)) = False
   \<and> console_error (fst (dataEffect failing changed True shown)) = [''transform failed'']
   \<and> snd (dataEffect failing changed True shown) = Inr ()"
proof -
  have p: "pipeline failing changed = Inl ''transform failed''"
    by (simp add: pipeline_def failing_def changed_def)
  from pipeline_rejection_keeps_view [OF p, of True shown] p show ?thesis
    by (simp add: shown_def)
qed

section \<open>Facts about the interaction bus\<close>

lemma subscriber_ignores:
  "(subscriber sid e t = (t, [])) = (source e = sid \<or> data e = None)"
  by (simp add: subscriber_def split: option.splits)

text \<open>
  An instance with one param, receiving an entry for that param: the entry is
  dropped, or written once; the listener that the write triggers finds the flag
  set, clears it and broadcasts nothing.
\<close>

lemma relay_single:
  assumes t: "taps inst = [\<lparr>param = signal e, noBroadcasting = False\<rparr>]"
  shows "relay e inst =
     (if source e = sourceId inst \<or> data e = None then (inst, [])
      else (inst\<lparr>stores := (stores inst)(signal e := data e),
                 setStates := setStates inst @ [(signal e, the (data e))]\<rparr>, []))"
proof (cases "data e")
  case None
  with t show ?thesis
    by (simp add: relay_def receive_def subscriber_def Let_def)
next
  case (Some d)
  show ?thesis
  proof (cases "source e = sourceId inst")
    case True
    with t Some show ?thesis
      by (simp add: relay_def receive_def subscriber_def Let_def)
  next
    case False
    have "inst\<lparr>taps := [\<lparr>param = signal e, noBroadcasting = False\<rparr>]\<rparr> = inst"
      using t by simp
    with t Some False show ?thesis
      by (simp add: relay_def receive_def subscriber_def fire_def signalListener_def Let_def)
  qed
qed

lemma wired_nth:
  "i < n \<Longrightarrow> wired n ps ! i =
     \<lparr>sourceId = i, taps = map (\<lambda>p. \<lparr>param = p, noBroadcasting = False\<rparr>) ps,
      stores = (\<lambda>sg. None), setStates = []\<rparr>"
  by (simp add: wired_def)

lemma receive_single:
  assumes t: "taps inst = [\<lparr>param = signal e, noBroadcasting = False\<rparr>]"
  shows "(receive e inst = inst) = (source e = sourceId inst \<or> data e = None)"
    and "source e \<noteq> sourceId inst \<and> data e \<noteq> None \<Longrightarrow>
       receive e inst =
         inst\<lparr>taps := [\<lparr>param = signal e, noBroadcasting = True\<rparr>],
              stores := (stores inst)(signal e := data e),
              setStates := setStates inst @ [(signal e, the (data e))]\<rparr>"
    and "source e \<noteq> sourceId inst \<and> data e \<noteq> None \<Longrightarrow>
       fire (signal e) (receive e inst) =
         ((receive e inst)\<lparr>taps := [\<lparr>param = signal e, noBroadcasting = False\<rparr>]\<rparr>, [])"
proof -
  show "(receive e inst = inst) = (source e = sourceId inst \<or> data e = None)"
  proof (cases "source e = sourceId inst \<or> data e = None")
    case True
    have "receive e inst = inst"
    proof (cases "data e")
      case None
      with t show ?thesis by (simp add: receive_def subscriber_def Let_def)
    next
      case (Some d)
      with True have "source e = sourceId inst" by simp
      with t Some show ?thesis by (simp add: receive_def subscriber_def Let_def)
    qed
    with True show ?thesis by simp
  next
    case False
    then obtain d where d: "data e = Some d" and s: "source e \<noteq> sourceId inst" by auto
    with t have "setStates (receive e inst) = setStates inst @ [(signal e, d)]"
      by (simp add: receive_def subscriber_def Let_def)
    then have "receive e inst \<noteq> inst" by auto
    with False show ?thesis by simp
  qed
next
  assume "source e \<noteq> sourceId inst \<and> data e \<noteq> None"
  then obtain d where d: "data e = Some d" and s: "source e \<noteq> sourceId inst" by auto
  with t show "receive e inst =
         inst\<lparr>taps := [\<lparr>param = signal e, noBroadcasting = True\<rparr>],
              stores := (stores inst)(signal e := data e),
              setStates := setStates inst @ [(signal e, the (data e))]\<rparr>"
    by (simp add: receive_def subscriber_def Let_def)
  with t d s show "fire (signal e) (receive e inst) =
         ((receive e inst)\<lparr>taps := [\<lparr>param = signal e, noBroadcasting = False\<rparr>]\<rparr>, [])"
    by (simp add: fire_def signalListener_def Let_def)
qed

text \<open>
  Claim C6, as stated: a view instance ignores an entry exactly when the entry
  comes from itself or its payload is empty or absent, and otherwise writes it
  exactly once and swallows the one emission that the write triggers.  View 1
  receives from view 0 the entry of a brush store that is the empty array, which
  the listener of lines 291 to 293 takes for an empty selection: the subscriber
  sets the flag and writes the empty array into the store of view 1.  A view that
  has both the brush and the point param has two subscriptions: an entry with a
  payload is written twice, the second emission triggered is broadcast again, and
  the flag of the point param is left set.
\<close>

theorem empty_payload_counterexample:
  "subscriber 1 \<lparr>signal = BRUSH_SIGNAL_NAME, source = 0, data = Some ([] :: nat list)\<rparr>
       \<lparr>param = BRUSH_SIGNAL_NAME, noBroadcasting = False\<rparr>
     = (\<lparr>param = BRUSH_SIGNAL_NAME, noBroadcasting = True\<rparr>, [(BRUSH_SIGNAL_NAME, [])])
   \<and> setStates (fst (relay \<lparr>signal = BRUSH_SIGNAL_NAME, source = 0, data = Some ([] :: nat list)\<rparr>
       (wired 2 [BRUSH_SIGNAL_NAME] ! 1))) = [(BRUSH_SIGNAL_NAME, [])]
   \<and> setStates (fst (relay \<lparr>signal = BRUSH_SIGNAL_NAME, source = 0, data = Some [7::nat]\<rparr>
       (wired 2 [BRUSH_SIGNAL_NAME, POINT_SIGNAL_NAME] ! 1)))
     = [(BRUSH_SIGNAL_NAME, [7]), (BRUSH_SIGNAL_NAME, [7])]
   \<and> snd (relay \<lparr>signal = BRUSH_SIGNAL_NAME, source = 0, data = Some [7::nat]\<rparr>
       (wired 2 [BRUSH_SIGNAL_NAME, POINT_SIGNAL_NAME] ! 1))
     = [\<lparr>signal = BRUSH_SIGNAL_NAME, source = 1, data = Some [7]\<rparr>]
   \<and> map noBroadcasting (taps (fst (relay
       \<lparr>signal = BRUSH_SIGNAL_NAME, source = 0, data = Some [7::nat]\<rparr>
       (wired 2 [BRUSH_SIGNAL_NAME, POINT_SIGNAL_NAME] ! 1)))) = [False, True]"
  by (simp add: subscriber_def relay_def receive_def fire_def signalListener_def wired_def
        Let_def upt_rec)

text \<open>
  Claim C6, amended.  Let a view instance have one selection param, with its flag
  clear, and let an entry of that param arrive from the throttled channel.  The
  instance ignores the entry exactly when the entry's source is the instance's
  own index or the payload is absent (\<^verbatim>\<open>null\<close>); a payload that is an empty array is
  not ignored.  Otherwise it sets the flag and writes the payload once into the
  store of its renderer, and the emission that the write triggers is swallowed:
  nothing is broadcast and the flag is clear again.  So in a grid of \<open>n\<close> views
  wired with the one param \<open>p\<close>, an entry of \<open>p\<close> with a payload sent by view \<open>k\<close>
  is written once into each other view and not into view \<open>k\<close>, and nothing is
  broadcast again.  (The first conjunct holds for every subscription.)
\<close>

theorem bus_entry_written_once:
  "(subscriber sid e t = (t, [])) = (source e = sid \<or> data e = None)
   \<and> (taps inst = [\<lparr>param = signal e, noBroadcasting = False\<rparr>] \<longrightarrow>
        (receive e inst = inst) = (source e = sourceId inst \<or> data e = None)
        \<and> (source e \<noteq> sourceId inst \<and> data e \<noteq> None \<longrightarrow>
             receive e inst =
               inst\<lparr>taps := [\<lparr>param = signal e, noBroadcasting = True\<rparr>],
                    stores := (stores inst)(signal e := data e),
                    setStates := setStates inst @ [(signal e, the (data e))]\<rparr>
             \<and> fire (signal e) (receive e inst) =
                 ((receive e inst)\<lparr>taps := [\<lparr>param = signal e, noBroadcasting = False\<rparr>]\<rparr>, []))
        \<and> relay e inst =
            (if source e = sourceId inst \<or> data e = None then (inst, [])
             else (inst\<lparr>stores := (stores inst)(signal e := data e),
                        setStates := setStates inst @ [(signal e, the (data e))]\<rparr>, [])))
   \<and> (k < n \<and> i < n \<longrightarrow>
        relay \<lparr>signal = p, source = k, data = Some d\<rparr> (wired n [p] ! i) =
          (if i = k then (wired n [p] ! i, [])
           else ((wired n [p] ! i)\<lparr>stores := (\<lambda>sg. None)(p := Some d),
                                    setStates := [(p, d)]\<rparr>, [])))"
proof -
  have grid: "relay \<lparr>signal = p, source = k, data = Some d\<rparr> (wired n [p] ! i) =
          (if i = k then (wired n [p] ! i, [])
           else ((wired n [p] ! i)\<lparr>stores := (\<lambda>sg. None)(p := Some d),
                                    setStates := [(p, d)]\<rparr>, []))"
    if "k < n" "i < n"
  proof -
    let ?e = "\<lparr>signal = p, source = k, data = Some d\<rparr>"
    have "taps (wired n [p] ! i) = [\<lparr>param = signal ?e, noBroadcasting = False\<rparr>]"
      using that by (simp add: wired_nth)
    from relay_single [OF this] that show ?thesis by (auto simp: wired_nth)
  qed
  have one: "taps inst = [\<lparr>param = signal e, noBroadcasting = False\<rparr>] \<longrightarrow>
        (receive e inst = inst) = (source e = sourceId inst \<or> data e = None)
        \<and> (source e \<noteq> sourceId inst \<and> data e \<noteq> None \<longrightarrow>
             receive e inst =
               inst\<lparr>taps := [\<lparr>param = signal e, noBroadcasting = True\<rparr>],
                    stores := (stores inst)(signal e := data e),
                    setStates := setStates inst @ [(signal e, the (data e))]\<rparr>
             \<and> fire (signal e) (receive e inst) =
                 ((receive e inst)\<lparr>taps := [\<lparr>param = signal e, noBroadcasting = False\<rparr>]\<rparr>, []))
        \<and> relay e inst =
            (if source e = sourceId inst \<or> data e = None then (inst, [])
             else (inst\<lparr>stores := (stores inst)(signal e := data e),
                        setStates := setStates inst @ [(signal e, the (data e))]\<rparr>, []))"
  proof (intro impI conjI)
    assume t: "taps inst = [\<lparr>param = signal e, noBroadcasting = False\<rparr>]"
    show "(receive e inst = inst) = (source e = sourceId inst \<or> data e = None)"
      by (rule receive_single(1) [OF t])
  next
    assume t: "taps inst = [\<lparr>param = signal e, noBroadcasting = False\<rparr>]"
      and o: "source e \<noteq> sourceId inst \<and> data e \<noteq> None"
    show "receive e inst =
               inst\<lparr>taps := [\<lparr>param = signal e, noBroadcasting = True\<rparr>],
                    stores := (stores inst)(signal e := data e),
                    setStates := setStates inst @ [(signal e, the (data e))]\<rparr>"
      by (rule receive_single(2) [OF t o])
  next
    assume t: "taps inst = [\<lparr>param = signal e, noBroadcasting = False\<rparr>]"
      and o: "source e \<noteq> sourceId inst \<and> data e \<noteq> None"
    show "fire (signal e) (receive e inst) =
                 ((receive e inst)\<lparr>taps := [\<lparr>param = signal e, noBroadcasting = False\<rparr>]\<rparr>, [])"
      by (rule receive_single(3) [OF t o])
  next
    assume t: "taps inst = [\<lparr>param = signal e, noBroadcasting = False\<rparr>]"
    show "relay e inst =
            (if source e = sourceId inst \<or> data e = None then (inst, [])
             else (inst\<lparr>stores := (stores inst)(signal e := data e),
                        setStates := setStates inst @ [(signal e, the (data e))]\<rparr>, []))"
      by (rule relay_single [OF t])
  qed
  from grid have three: "k < n \<and> i < n \<longrightarrow>
        relay \<lparr>signal = p, source = k, data = Some d\<rparr> (wired n [p] ! i) =
          (if i = k then (wired n [p] ! i, [])
           else ((wired n [p] ! i)\<lparr>stores := (\<lambda>sg. None)(p := Some d),
                                    setStates := [(p, d)]\<rparr>, []))"
    by blast
  from subscriber_ignores [of sid e t] one three show ?thesis by (intro conjI)
qed

theorem bus_entry_written_once_witness:
  "taps (wired 3 [BRUSH_SIGNAL_NAME] ! 1 :: nat viewInstance)
     = [\<lparr>param = BRUSH_SIGNAL_NAME, noBroadcasting = False\<rparr>]
   \<and> relay \<lparr>signal = BRUSH_SIGNAL_NAME, source = 0, data = None\<rparr>
       (wired 3 [BRUSH_SIGNAL_NAME] ! 1 :: nat viewInstance)
     = (wired 3 [BRUSH_SIGNAL_NAME] ! 1, [])
   \<and> map noBroadcasting (taps (receive \<lparr>signal = BRUSH_SIGNAL_NAME, source = 0, data = Some [7::nat]\<rparr>
       (wired 3 [BRUSH_SIGNAL_NAME] ! 1))) = [True]
   \<and> snd (fire BRUSH_SIGNAL_NAME (receive \<lparr>signal = BRUSH_SIGNAL_NAME, source = 0, data = Some [7::nat]\<rparr>
       (wired 3 [BRUSH_SIGNAL_NAME] ! 1))) = []
   \<and> relay \<lparr>signal = BRUSH_SIGNAL_NAME, source = 0, data = Some [7::nat]\<rparr>
       (wired 3 [BRUSH_SIGNAL_NAME] ! 0) = (wired 3 [BRUSH_SIGNAL_NAME] ! 0, [])
   \<and> setStates (fst (relay \<lparr>signal = BRUSH_SIGNAL_NAME, source = 0, data = Some [7::nat]\<rparr>
       (wired 3 [BRUSH_SIGNAL_NAME] ! 1))) = [(BRUSH_SIGNAL_NAME, [7])]
   \<and> setStates (fst (relay \<lparr>signal = BRUSH_SIGNAL_NAME, source = 0, data = Some [7::nat]\<rparr>
       (wired 3 [BRUSH_SIGNAL_NAME] ! 2))) = [(BRUSH_SIGNAL_NAME, [7])]
   \<and> snd (relay \<lparr>signal = BRUSH_SIGNAL_NAME, source = 0, data = Some [7::nat]\<rparr>
       (wired 3 [BRUSH_SIGNAL_NAME] ! 1)) = []"
proof -
  note one = bus_entry_written_once [THEN conjunct2, THEN conjunct1, rule_format]
  note grid = bus_entry_written_once [THEN conjunct2, THEN conjunct2, rule_format]
  let ?absent = "\<lparr>signal = BRUSH_SIGNAL_NAME, source = 0, data = None\<rparr> :: nat ParamStoreEntry"
  let ?seven = "\<lparr>signal = BRUSH_SIGNAL_NAME, source = 0, data = Some [7]\<rparr> :: nat ParamStoreEntry"
  let ?v = "wired 3 [BRUSH_SIGNAL_NAME] ! 1 :: nat viewInstance"
  have t: "taps ?v = [\<lparr>param = signal ?absent, noBroadcasting = False\<rparr>]"
    by (simp add: wired_nth)
  have t7: "taps ?v = [\<lparr>param = signal ?seven, noBroadcasting = False\<rparr>]"
    by (simp add: wired_nth)
  have other: "source ?seven \<noteq> sourceId ?v \<and> data ?seven \<noteq> None"
    by (simp add: wired_nth)
  have 0: "(0::nat) < 3 \<and> (0::nat) < 3" and 1: "(0::nat) < 3 \<and> (1::nat) < 3"
    and 2: "(0::nat) < 3 \<and> (2::nat) < 3"
    by simp_all
  from one [OF t, THEN conjunct2, THEN conjunct2]
  have a: "relay ?absent ?v = (?v, [])" by simp
  note written = one [OF t7, THEN conjunct2, THEN conjunct1, rule_format, OF other]
  from written [THEN conjunct1]
  have b: "map noBroadcasting (taps (receive ?seven ?v)) = [True]" by simp
  from written [THEN conjunct2]
  have c: "snd (fire BRUSH_SIGNAL_NAME (receive ?seven ?v)) = []" by simp
  from a b c t
    grid [OF 0, of BRUSH_SIGNAL_NAME "[7::nat]"] grid [OF 1, of BRUSH_SIGNAL_NAME "[7::nat]"]
    grid [OF 2, of BRUSH_SIGNAL_NAME "[7::nat]"]
  show ?thesis by simp
qed

text \<open>
  An instance with both params has two subscriptions, and each of them writes the
  entry.
\<close>

lemma two_params_two_writes:
  "setStates (receive \<lparr>signal = BRUSH_SIGNAL_NAME, source = 0, data = Some [7::nat]\<rparr>
       (wired 2 [BRUSH_SIGNAL_NAME, POINT_SIGNAL_NAME] ! 1))
     = [(BRUSH_SIGNAL_NAME, [7]), (BRUSH_SIGNAL_NAME, [7])]"
  by (simp add: receive_def subscriber_def wired_def Let_def upt_rec)

end
